theory Spec2Isabelle
  imports Main "HOL-Library.Word"
begin

section \<open>Go strings and the library functions the frame parser uses\<close>

text \<open>
  A Go string is a sequence of bytes, here a \<open>string\<close> (a list of 8-bit characters).
  The functions of package \<open>strings\<close> that \<open>type.go\<close> calls are written out below;
  \<open>Split\<close> is only ever called with the one-byte separator \<open>"."\<close>, so the separator is
  a single character. \<open>genSplit\<close> is the scanning loop: \<open>cur\<close> holds the bytes of the
  segment being read.
\<close>

fun genSplit :: "char \<Rightarrow> string \<Rightarrow> string \<Rightarrow> string list" where
  "genSplit sep cur [] = [cur]"
| "genSplit sep cur (c # cs) =
     (if c = sep then cur # genSplit sep [] cs else genSplit sep (cur @ [c]) cs)"

definition Split :: "string \<Rightarrow> char \<Rightarrow> string list" where
  "Split s sep = genSplit sep [] s"

fun Join :: "string list \<Rightarrow> string \<Rightarrow> string" where
  "Join [] sep = []"
| "Join [a] sep = a"
| "Join (a # b # rest) sep = a @ sep @ Join (b # rest) sep"

definition HasPrefix :: "string \<Rightarrow> string \<Rightarrow> bool" where
  "HasPrefix s prefix = (length prefix \<le> length s \<and> take (length prefix) s = prefix)"

definition HasSuffix :: "string \<Rightarrow> string \<Rightarrow> bool" where
  "HasSuffix s suffix =
     (length suffix \<le> length s \<and> drop (length s - length suffix) s = suffix)"

definition TrimPrefix :: "string \<Rightarrow> string \<Rightarrow> string" where
  "TrimPrefix s prefix = (if HasPrefix s prefix then drop (length prefix) s else s)"

definition TrimSuffix :: "string \<Rightarrow> string \<Rightarrow> string" where
  "TrimSuffix s suffix =
     (if HasSuffix s suffix then take (length s - length suffix) s else s)"

subsection \<open>Runes\<close>

text \<open>
  \<open>startsWith\<close> reads the character after the prefix with \<open>utf8.DecodeRuneInString\<close>
  and tests it with \<open>unicode.IsLower\<close>. Both belong to the Go standard library. The
  decoder is written out in full: an ill-formed or truncated sequence yields
  \<open>RuneError\<close> with width 1, the empty string \<open>RuneError\<close> with width 0.
  \<open>unicode.IsLower\<close> answers from a fixed property table for code points up to
  \<open>MaxLatin1\<close> and from the range table \<open>unicode.Lower\<close> above it; that range table
  depends on the Unicode version of the toolchain and is a parameter \<open>Lower\<close> of the
  model. No ASCII name ever consults it.
\<close>

type_synonym rune = nat

definition RuneError :: rune where
  "RuneError = 0xFFFD"

definition MaxLatin1 :: rune where
  "MaxLatin1 = 0xFF"

definition byte_of :: "char \<Rightarrow> nat" where
  "byte_of c = of_char c"

definition DecodeRuneInString :: "string \<Rightarrow> rune \<times> nat" where
  "DecodeRuneInString s =
     (if length s < 1 then (RuneError, 0)
      else let s0 = byte_of (s ! 0) in
        if s0 < 0x80 then (s0, 1)
        else if s0 < 0xC2 \<or> 0xF4 < s0 then (RuneError, 1)
        else
          let sz = (if s0 < 0xE0 then 2 else if s0 < 0xF0 then 3 else (4::nat));
              lo = (if s0 = 0xE0 then 0xA0 else if s0 = 0xF0 then 0x90 else (0x80::nat));
              hi = (if s0 = 0xED then 0x9F else if s0 = 0xF4 then 0x8F else (0xBF::nat))
          in
            if length s < sz then (RuneError, 1)
            else let s1 = byte_of (s ! 1) in
              if s1 < lo \<or> hi < s1 then (RuneError, 1)
              else if sz \<le> 2 then ((s0 mod 0x20) * 0x40 + s1 mod 0x40, 2)
              else let s2 = byte_of (s ! 2) in
                if s2 < 0x80 \<or> 0xBF < s2 then (RuneError, 1)
                else if sz \<le> 3
                  then ((s0 mod 0x10) * 0x1000 + (s1 mod 0x40) * 0x40 + s2 mod 0x40, 3)
                else let s3 = byte_of (s ! 3) in
                  if s3 < 0x80 \<or> 0xBF < s3 then (RuneError, 1)
                  else ((s0 mod 0x08) * 0x40000 + (s1 mod 0x40) * 0x1000
                          + (s2 mod 0x40) * 0x40 + s3 mod 0x40, 4))"

definition IsLower :: "(rune \<Rightarrow> bool) \<Rightarrow> rune \<Rightarrow> bool" where
  "IsLower Lower r =
     (if r \<le> MaxLatin1
      then (0x61 \<le> r \<and> r \<le> 0x7A) \<or> r = 0xB5 \<or> (0xDF \<le> r \<and> r \<le> 0xF6)
             \<or> (0xF8 \<le> r \<and> r \<le> 0xFF)
      else Lower r)"

section \<open>FuncInfo: one resolved frame and its parsed name\<close>

text \<open>
  \<open>FuncInfo\<close> embeds the \<open>*runtime.Func\<close> of the frame; all the code reads from it is
  its \<open>Name()\<close>, kept in the field \<open>Name\<close>. \<open>Function\<close>, \<open>Object\<close> and \<open>Package\<close> are the
  parsed parts; Go initialises them to the empty string.
\<close>

record FuncInfo =
  Name :: string
  Function :: string
  Object :: string
  Package :: string
  File :: string
  Line :: int

definition isObjectRef :: "string \<Rightarrow> bool" where
  "isObjectRef s = (if HasPrefix s ''('' \<and> HasSuffix s '')'' then True else False)"

text \<open>
  \<open>findObjectRef\<close> returns \<open>(i, true)\<close> for the first element that is an object
  reference and \<open>(-1, false)\<close> when there is none: \<open>Some i\<close> and \<open>None\<close> here. The
  argument \<open>i\<close> of \<open>findObjectRef_from\<close> is the loop index.
\<close>

fun findObjectRef_from :: "nat \<Rightarrow> string list \<Rightarrow> nat option" where
  "findObjectRef_from i [] = None"
| "findObjectRef_from i (s # refs) =
     (if isObjectRef s then Some i else findObjectRef_from (Suc i) refs)"

definition findObjectRef :: "string list \<Rightarrow> nat option" where
  "findObjectRef refs = findObjectRef_from 0 refs"

definition trimObjectRef :: "string \<Rightarrow> string" where
  "trimObjectRef s = TrimPrefix (TrimPrefix (TrimSuffix s '')'') ''('') ''*''"

definition parseName :: "FuncInfo \<Rightarrow> FuncInfo" where
  "parseName f =
     (let nameElems = Split (Name f) CHR ''.'' in
      if length nameElems < 2 then f\<lparr>Function := Name f\<rparr>
      else case findObjectRef nameElems of
        Some objIndex \<Rightarrow>
          f\<lparr>Function := Join (drop (objIndex + 1) nameElems) ''.'',
            Object := trimObjectRef (nameElems ! objIndex),
            Package := Join (take objIndex nameElems) ''.''\<rparr>
      | None \<Rightarrow>
          f\<lparr>Function := nameElems ! (length nameElems - 1),
            Package := Join (take (length nameElems - 1) nameElems) ''.''\<rparr>)"

definition NewFuncInfo :: "string \<Rightarrow> string \<Rightarrow> int \<Rightarrow> FuncInfo" where
  "NewFuncInfo name file line =
     parseName \<lparr>Name = name, Function = [], Object = [], Package = [],
                File = file, Line = line\<rparr>"

subsection \<open>The test and mock predicates\<close>

definition startsWith :: "(rune \<Rightarrow> bool) \<Rightarrow> string \<Rightarrow> string \<Rightarrow> bool" where
  "startsWith Lower name prefix =
     (if \<not> HasPrefix name prefix then False
      else if length name = length prefix then True
      else \<not> IsLower Lower (fst (DecodeRuneInString (drop (length prefix) name))))"

definition IsMock :: "(rune \<Rightarrow> bool) \<Rightarrow> FuncInfo \<Rightarrow> bool" where
  "IsMock Lower f = startsWith Lower (Object f) ''Mock''"

definition IsTest :: "(rune \<Rightarrow> bool) \<Rightarrow> FuncInfo \<Rightarrow> bool" where
  "IsTest Lower f =
     (startsWith Lower (Function f) ''Test'' \<or>
      startsWith Lower (Function f) ''Benchmark'' \<or>
      startsWith Lower (Function f) ''Example'')"

section \<open>The call stack as the runtime reports it\<close>

text \<open>
  \<open>CallerFuncInfo\<close> asks \<open>runtime.Caller\<close> for the frame at a depth and
  \<open>runtime.FuncForPC\<close> for its function. The answers of the runtime are the input of
  the model: a list \<open>rt\<close> whose element \<open>i\<close> is what \<open>runtime.Caller(i)\<close> reports when it
  is called inside \<open>CallerFuncInfo\<close>, itself called by \<open>BuildCallerStack\<close>. So element 0
  is the frame of \<open>CallerFuncInfo\<close>, element 1 that of \<open>BuildCallerStack\<close>, element 2 the
  method of \<open>BaseTest\<close> that asked for the walk, and the callers follow. \<open>fn_name\<close> is
  \<open>None\<close> when \<open>FuncForPC\<close> returns nil. Beyond the end of the list \<open>runtime.Caller\<close>
  reports \<open>ok = false\<close>.
\<close>

record rtframe =
  fn_name :: "string option"
  fn_file :: string
  fn_line :: int

text \<open>
  A \<open>*FuncInfo\<close> is nil or the address of a \<open>FuncInfo\<close> allocated by \<open>NewFuncInfo\<close>, never
  written again. A non-nil pointer is modelled by the depth at which its frame was
  resolved, which identifies the allocation within one walk, together with the value it
  points to; pointer equality is equality of these pairs.
\<close>

type_synonym ref = "nat \<times> FuncInfo"

type_synonym ptr = "ref option"

datatype panic = NilDereference | IndexOutOfRange

definition CallerFuncInfo :: "rtframe list \<Rightarrow> nat \<Rightarrow> ptr" where
  "CallerFuncInfo rt callerIndex =
     (if \<not> callerIndex < length rt then None
      else let fr = rt ! callerIndex in
        if fn_file fr = ''<autogenerated>'' then None
        else case fn_name fr of
          None \<Rightarrow> None
        | Some name \<Rightarrow> Some (callerIndex, NewFuncInfo name (fn_file fr) (fn_line fr)))"

text \<open>
  \<open>LogString\<close> has a pointer receiver and reads the fields of its receiver: on nil it
  panics. The text it formats, \<open>"%s.%s at %s:%d"\<close>, is kept as its four arguments.
\<close>

type_synonym logstring = "string \<times> string \<times> string \<times> int"

definition LogString :: "ptr \<Rightarrow> panic + logstring" where
  "LogString p =
     (case p of
        None \<Rightarrow> Inl NilDereference
      | Some f \<Rightarrow>
          if Object (snd f) = [] then Inr (Package (snd f), Function (snd f), File (snd f), Line (snd f))
          else Inr (Object (snd f), Function (snd f), File (snd f), Line (snd f)))"

section \<open>FuncInfoStack and the walk\<close>

text \<open>
  The fields \<open>last\<close> and \<open>this\<close> of the source are \<open>last_f\<close> and \<open>this_f\<close>. \<open>Stack\<close> only ever
  receives the non-nil pointers the walk resolves.
\<close>

record FuncInfoStack =
  Caller :: ptr
  Stack :: "ref list"
  Test :: ptr
  Tested :: ptr
  Mocked :: ptr
  Mocker :: ptr
  last_f :: ptr
  this_f :: ptr

definition MockedCall :: "FuncInfoStack \<Rightarrow> panic + string" where
  "MockedCall s =
     (case Mocker s of
        None \<Rightarrow> Inl NilDereference
      | Some mocker \<Rightarrow>
          (case Mocked s of
             None \<Rightarrow> Inl NilDereference
           | Some mocked \<Rightarrow>
               Inr (Join [Object (snd mocker), Function (snd mocker),
                          Object (snd mocked), Function (snd mocked)] ''.'')))"

text \<open>
  \<open>walk_frame\<close> is the body of the loop of \<open>BuildCallerStack\<close> after a successful
  \<open>CallerFuncInfo\<close>, for the frame \<open>f\<close>. The condition of the first \<open>if\<close> reads
  \<open>s.this.Package\<close> only when \<open>s.Caller\<close> is nil (\<open>&&\<close> evaluates its right operand only
  then).
\<close>

definition walk_frame :: "(rune \<Rightarrow> bool) \<Rightarrow> FuncInfoStack \<Rightarrow> ref \<Rightarrow> panic + FuncInfoStack" where
  "walk_frame Lower s0 f =
     (let s1 = s0\<lparr>Stack := Stack s0 @ [f]\<rparr> in
      case (if Caller s1 = None
            then (case this_f s1 of
                    None \<Rightarrow> Inl NilDereference
                  | Some t \<Rightarrow> Inr (Package (snd f) \<noteq> Package (snd t)))
            else Inr False) of
        Inl e \<Rightarrow> Inl e
      | Inr outside \<Rightarrow>
          let s2 = (if outside then s1\<lparr>Caller := Some f\<rparr> else s1);
              s3 = (if last_f s2 = Mocked s2 then s2\<lparr>Mocker := Some f\<rparr> else s2);
              s4 = (if IsMock Lower (snd f) then s3\<lparr>Mocked := Some f\<rparr> else s3);
              s5 = (if IsTest Lower (snd f) then s4\<lparr>Test := Some f, Tested := last_f s4\<rparr> else s4)
          in Inr (s5\<lparr>last_f := Some f\<rparr>))"

function walk :: "(rune \<Rightarrow> bool) \<Rightarrow> rtframe list \<Rightarrow> nat \<Rightarrow> FuncInfoStack \<Rightarrow> panic + FuncInfoStack" where
  "walk Lower rt i s =
     (case CallerFuncInfo rt i of
        None \<Rightarrow> Inr s
      | Some f \<Rightarrow>
          (case walk_frame Lower s f of
             Inl e \<Rightarrow> Inl e
           | Inr s' \<Rightarrow> walk Lower rt (i + 1) s'))"
  by pat_completeness auto
termination
  by (relation "measure (\<lambda>(Lower, rt, i, s). length rt - i)")
     (auto simp add: CallerFuncInfo_def split: if_splits)

text \<open>The composite literal \<open>&FuncInfoStack{Stack: []*FuncInfo{}}\<close>: every pointer is nil.\<close>

definition new_FuncInfoStack :: FuncInfoStack where
  "new_FuncInfoStack =
     \<lparr>Caller = None, Stack = [], Test = None, Tested = None, Mocked = None,
      Mocker = None, last_f = None, this_f = None\<rparr>"

definition BuildCallerStack :: "(rune \<Rightarrow> bool) \<Rightarrow> rtframe list \<Rightarrow> panic + FuncInfoStack" where
  "BuildCallerStack Lower rt =
     (let s = new_FuncInfoStack in
      case CallerFuncInfo rt 1 of
        None \<Rightarrow> Inr s
      | Some t \<Rightarrow> walk Lower rt 3 (s\<lparr>this_f := Some t\<rparr>))"

definition GetMockedCallName :: "(rune \<Rightarrow> bool) \<Rightarrow> rtframe list \<Rightarrow> panic + string" where
  "GetMockedCallName Lower rt =
     (case BuildCallerStack Lower rt of Inl e \<Rightarrow> Inl e | Inr s \<Rightarrow> MockedCall s)"

definition GetCallerInfo :: "(rune \<Rightarrow> bool) \<Rightarrow> rtframe list \<Rightarrow> panic + ptr" where
  "GetCallerInfo Lower rt =
     (case BuildCallerStack Lower rt of Inl e \<Rightarrow> Inl e | Inr s \<Rightarrow> Inr (Caller s))"

text \<open>
  The loop over an explicit list of frames, and the frames the loop resolves from a
  depth on: the walk is the first applied to the second (lemma \<open>walk_resolved\<close>).
\<close>

fun walk_frames :: "(rune \<Rightarrow> bool) \<Rightarrow> FuncInfoStack \<Rightarrow> ref list \<Rightarrow> panic + FuncInfoStack" where
  "walk_frames Lower s [] = Inr s"
| "walk_frames Lower s (f # fs) =
     (case walk_frame Lower s f of
        Inl e \<Rightarrow> Inl e
      | Inr s' \<Rightarrow> walk_frames Lower s' fs)"

function resolved :: "rtframe list \<Rightarrow> nat \<Rightarrow> ref list" where
  "resolved rt i =
     (case CallerFuncInfo rt i of
        None \<Rightarrow> []
      | Some f \<Rightarrow> f # resolved rt (i + 1))"
  by pat_completeness auto
termination
  by (relation "measure (\<lambda>(rt, i). length rt - i)")
     (auto simp add: CallerFuncInfo_def split: if_splits)

declare walk.simps [simp del] resolved.simps [simp del]

text \<open>
  The stacks the Go runtime reports to a test. \<open>runtime.Caller\<close> leaves out the wrapper
  frames the compiler generates, and every frame it reports belongs to a function with
  a name: every frame resolves. The stack of a goroutine ends in the frame of
  \<open>runtime.goexit\<close>, below the frames of the walker and of the method that asked for the
  walk. \<open>BuildCallerStack\<close> is not a function of package \<open>runtime\<close>.
\<close>

definition reported_stack :: "rtframe list \<Rightarrow> bool" where
  "reported_stack rt =
     (3 < length rt \<and>
      (\<forall>fr\<in>set rt. fn_name fr \<noteq> None \<and> fn_file fr \<noteq> ''<autogenerated>'') \<and>
      fn_name (last rt) = Some ''runtime.goexit'' \<and>
      (case CallerFuncInfo rt 1 of None \<Rightarrow> False | Some t \<Rightarrow> Package (snd t) \<noteq> ''runtime''))"

section \<open>Captured values and the retrieval operations\<close>

text \<open>
  A captured value is an \<open>interface{}\<close>: nil, or a dynamic type with its data. The types
  \<open>'t\<close> of dynamic types and \<open>'d\<close> of data are left open. The operations compare dynamic
  types with \<open>reflect.Type.AssignableTo\<close>, which belongs to the Go runtime: it is the
  parameter \<open>AssignableTo\<close>, applied as \<open>AssignableTo actualType expectedType\<close>.

  A failed gomega assertion of a \<open>WithT\<close> and \<open>x.Fatalf\<close> both end in \<open>t.Fatalf\<close>, which
  marks the test failed and stops its goroutine: the operation does not return. This is
  \<open>Fatal\<close> with the diagnostic, one constructor for each message of the source with the
  arguments it formats. A run-time panic is \<open>Panic\<close>.
\<close>

datatype ('t, 'd) iface = NilIface | Iface 't 'd

datatype ('t, 'd) diagnostic =
    NoMockFoundForCapture logstring
  | NoCapturedValues
  | OnlyCaptured nat "64 word"
  | NotAssignableAt "('t, 'd) iface" "64 word" "('t, 'd) iface"
  | NoCapturedOfType "('t, 'd) iface" logstring
  | NoCapturesFrom logstring string "string list"
  | NoCapturesOfTypeFrom logstring "('t, 'd) iface" string "string list" "('t, 'd) iface list"

datatype ('t, 'd) failure = Panic panic | Fatal "('t, 'd) diagnostic"

text \<open>
  Of \<open>BaseTest\<close> the capture store is modelled: the global sequence \<open>captured\<close>, the
  buckets \<open>capsFrom\<close>, and in \<open>tlog\<close> what \<open>x.Logf\<close> has written to the log of the test.
\<close>

record ('t, 'd) BaseTest =
  captured :: "('t, 'd) iface list"
  capsFrom :: "string \<rightharpoonup> ('t, 'd) iface list"
  tlog :: "('t, 'd) diagnostic list"

definition New :: "('t, 'd) BaseTest" where
  "New = \<lparr>captured = [], capsFrom = Map.empty, tlog = []\<rparr>"

text \<open>
  \<open>AssignableToTypeOfMatcher.Match\<close> of gomega: \<open>None\<close> is the error it returns when the
  expected value is nil. A nil actual value is no match (older versions of gomega
  return an error for it too; every caller treats both answers alike).
\<close>

definition AssignableToTypeOfMatch ::
  "('t \<Rightarrow> 't \<Rightarrow> bool) \<Rightarrow> ('t, 'd) iface \<Rightarrow> ('t, 'd) iface \<Rightarrow> bool option" where
  "AssignableToTypeOfMatch AssignableTo expected actual =
     (case expected of
        NilIface \<Rightarrow> None
      | Iface expectedType _ \<Rightarrow>
          (case actual of
             NilIface \<Rightarrow> Some False
           | Iface actualType _ \<Rightarrow> Some (AssignableTo actualType expectedType)))"

definition Capture ::
  "(rune \<Rightarrow> bool) \<Rightarrow> rtframe list \<Rightarrow> ('t, 'd) BaseTest \<Rightarrow> ('t, 'd) iface list
     \<Rightarrow> ('t, 'd) failure + ('t, 'd) BaseTest" where
  "Capture Lower rt x vals =
     (case BuildCallerStack Lower rt of
        Inl e \<Rightarrow> Inl (Panic e)
      | Inr stack \<Rightarrow>
          (case (if Mocked stack = None
                 then (case LogString (Caller stack) of
                         Inl e \<Rightarrow> Inl (Panic e)
                       | Inr site \<Rightarrow> Inr (x\<lparr>tlog := tlog x @ [NoMockFoundForCapture site]\<rparr>))
                 else (case MockedCall stack of
                         Inl e \<Rightarrow> Inl (Panic e)
                       | Inr key \<Rightarrow>
                           let caps = (case capsFrom x key of None \<Rightarrow> [] | Some found \<Rightarrow> found)
                           in Inr (x\<lparr>capsFrom := (capsFrom x)(key \<mapsto> caps @ vals)\<rparr>))) of
             Inl e \<Rightarrow> Inl e
           | Inr x' \<Rightarrow> Inr (x'\<lparr>captured := captured x' @ vals\<rparr>)))"

definition AllCaptured :: "('t, 'd) BaseTest \<Rightarrow> ('t, 'd) iface list" where
  "AllCaptured x = captured x"

text \<open>
  \<open>index\<close> is a Go \<open>int\<close>, signed and 64 bits wide on the usual platforms: \<open>index + 1\<close>
  wraps. The index expression \<open>x.captured[index]\<close> is evaluated as an argument of the
  third assertion and panics outside \<open>0 \<le> index < len\<close>.
\<close>

definition Captured ::
  "('t \<Rightarrow> 't \<Rightarrow> bool) \<Rightarrow> ('t, 'd) BaseTest \<Rightarrow> 64 word \<Rightarrow> ('t, 'd) iface
     \<Rightarrow> ('t, 'd) failure + ('t, 'd) iface" where
  "Captured AssignableTo x index expectTypeOf =
     (if captured x = [] then Inl (Fatal NoCapturedValues)
      else if \<not> sint (index + 1) \<le> int (length (captured x))
        then Inl (Fatal (OnlyCaptured (length (captured x)) index))
      else if sint index < 0 \<or> int (length (captured x)) \<le> sint index
        then Inl (Panic IndexOutOfRange)
      else let v = captured x ! nat (sint index) in
        if AssignableToTypeOfMatch AssignableTo expectTypeOf v = Some True then Inr v
        else Inl (Fatal (NotAssignableAt v index expectTypeOf)))"

fun capturedOfType_loop ::
  "('t \<Rightarrow> 't \<Rightarrow> bool) \<Rightarrow> ('t, 'd) iface \<Rightarrow> ('t, 'd) iface list \<Rightarrow> ('t, 'd) iface list
     \<Rightarrow> ('t, 'd) iface list" where
  "capturedOfType_loop AssignableTo expectTypeOf results [] = results"
| "capturedOfType_loop AssignableTo expectTypeOf results (cap # caps) =
     capturedOfType_loop AssignableTo expectTypeOf
       (if AssignableToTypeOfMatch AssignableTo expectTypeOf cap = Some True
        then results @ [cap] else results) caps"

definition capturedOfType ::
  "('t \<Rightarrow> 't \<Rightarrow> bool) \<Rightarrow> ('t, 'd) iface \<Rightarrow> ('t, 'd) iface list \<Rightarrow> ('t, 'd) iface list" where
  "capturedOfType AssignableTo expectTypeOf caps =
     capturedOfType_loop AssignableTo expectTypeOf [] caps"

text \<open>
  Go visits the keys of a map in an order it does not specify. Every \<open>range\<close> over
  \<open>x.capsFrom\<close> takes the order of the visit as the argument \<open>order\<close>: an enumeration of
  the keys of the map without repetition, which \<open>range_order\<close> says.
\<close>

definition range_order :: "(string \<rightharpoonup> 'v) \<Rightarrow> string list \<Rightarrow> bool" where
  "range_order m order = (distinct order \<and> set order = dom m)"

fun CapturedOfType_loop ::
  "('t \<Rightarrow> 't \<Rightarrow> bool) \<Rightarrow> ('t, 'd) iface \<Rightarrow> (string \<rightharpoonup> ('t, 'd) iface list)
     \<Rightarrow> ('t, 'd) iface list \<Rightarrow> string list \<Rightarrow> ('t, 'd) iface list" where
  "CapturedOfType_loop AssignableTo expectTypeOf m caps [] = caps"
| "CapturedOfType_loop AssignableTo expectTypeOf m caps (key # keys) =
     CapturedOfType_loop AssignableTo expectTypeOf m
       (case m key of
          None \<Rightarrow> caps
        | Some callCaps \<Rightarrow> caps @ capturedOfType AssignableTo expectTypeOf callCaps) keys"

text \<open>
  The message of a failure names the caller: \<open>x.GetCallerInfo().LogString()\<close>, with the
  stack \<open>rt\<close> the runtime reports to that walk.
\<close>

definition callerLogString :: "(rune \<Rightarrow> bool) \<Rightarrow> rtframe list \<Rightarrow> panic + logstring" where
  "callerLogString Lower rt =
     (case GetCallerInfo Lower rt of Inl e \<Rightarrow> Inl e | Inr caller \<Rightarrow> LogString caller)"

definition CapturedOfType ::
  "('t \<Rightarrow> 't \<Rightarrow> bool) \<Rightarrow> (rune \<Rightarrow> bool) \<Rightarrow> rtframe list \<Rightarrow> string list \<Rightarrow> ('t, 'd) BaseTest
     \<Rightarrow> ('t, 'd) iface \<Rightarrow> ('t, 'd) failure + ('t, 'd) iface list" where
  "CapturedOfType AssignableTo Lower rt order x expectTypeOf =
     (let caps = CapturedOfType_loop AssignableTo expectTypeOf (capsFrom x) [] order in
      if length caps = 0
      then (case callerLogString Lower rt of
              Inl e \<Rightarrow> Inl (Panic e)
            | Inr caller \<Rightarrow> Inl (Fatal (NoCapturedOfType expectTypeOf caller)))
      else Inr caps)"

fun capturedKeys_loop :: "(string \<rightharpoonup> 'v) \<Rightarrow> string list \<Rightarrow> string list \<Rightarrow> string list" where
  "capturedKeys_loop m keys [] = keys"
| "capturedKeys_loop m keys (key # rest) =
     capturedKeys_loop m (if m key = None then keys else keys @ [key]) rest"

definition capturedKeys :: "string list \<Rightarrow> ('t, 'd) BaseTest \<Rightarrow> string list" where
  "capturedKeys order x = capturedKeys_loop (capsFrom x) [] order"

definition CapturedFrom ::
  "(rune \<Rightarrow> bool) \<Rightarrow> rtframe list \<Rightarrow> string list \<Rightarrow> ('t, 'd) BaseTest \<Rightarrow> string
     \<Rightarrow> ('t, 'd) failure + ('t, 'd) iface list" where
  "CapturedFrom Lower rt order x mockCall =
     (if capsFrom x = Map.empty then Inl (Fatal NoCapturedValues)
      else case capsFrom x mockCall of
        Some caps \<Rightarrow> Inr caps
      | None \<Rightarrow>
          (case callerLogString Lower rt of
             Inl e \<Rightarrow> Inl (Panic e)
           | Inr caller \<Rightarrow> Inl (Fatal (NoCapturesFrom caller mockCall (capturedKeys order x)))))"

text \<open>
  In \<open>CapturedOfTypeFromCall\<close> the loop that fills \<open>capTypes\<close> ranges over \<open>caps\<close>, the
  values that matched, and formats each as \<open>"(%T)%v"\<close>: the value stands for its text.
  \<open>rt'\<close> is the stack reported to the walk inside \<open>CapturedFrom\<close>, \<open>rt\<close> the one reported
  to the walk of \<open>CapturedOfTypeFromCall\<close> itself.
\<close>

fun capTypes_loop :: "('t, 'd) iface list \<Rightarrow> ('t, 'd) iface list \<Rightarrow> ('t, 'd) iface list" where
  "capTypes_loop capTypes [] = capTypes"
| "capTypes_loop capTypes (cap # caps) = capTypes_loop (capTypes @ [cap]) caps"

definition CapturedOfTypeFromCall ::
  "('t \<Rightarrow> 't \<Rightarrow> bool) \<Rightarrow> (rune \<Rightarrow> bool) \<Rightarrow> rtframe list \<Rightarrow> rtframe list \<Rightarrow> string list
     \<Rightarrow> ('t, 'd) BaseTest \<Rightarrow> ('t, 'd) iface \<Rightarrow> string \<Rightarrow> ('t, 'd) failure + ('t, 'd) iface list" where
  "CapturedOfTypeFromCall AssignableTo Lower rt' rt order x expectTypeOf mockCall =
     (case CapturedFrom Lower rt' order x mockCall of
        Inl e \<Rightarrow> Inl e
      | Inr capsFrom' \<Rightarrow>
          let caps = capturedOfType AssignableTo expectTypeOf capsFrom' in
          if length caps = 0
          then (case callerLogString Lower rt of
                  Inl e \<Rightarrow> Inl (Panic e)
                | Inr caller \<Rightarrow>
                    let capTypes = capTypes_loop [] caps in
                    Inl (Fatal (NoCapturesOfTypeFrom caller expectTypeOf mockCall
                                  (capturedKeys order x) capTypes)))
          else Inr caps)"

subsection \<open>Values for the examples\<close>

text \<open>
  The examples capture integers and strings. \<open>int\<close> and \<open>string\<close> are distinct
  predeclared types: each is assignable to itself and neither to the other.
\<close>

datatype gotype = GoInt | GoString

datatype godata = IntData int | StringData string

definition identical :: "gotype \<Rightarrow> gotype \<Rightarrow> bool" where
  "identical V T = (V = T)"

definition goInt :: "int \<Rightarrow> (gotype, godata) iface" where
  "goInt n = Iface GoInt (IntData n)"

definition goString :: "string \<Rightarrow> (gotype, godata) iface" where
  "goString s = Iface GoString (StringData s)"

text \<open>The table \<open>unicode.Lower\<close> of the examples: their names are ASCII.\<close>

definition noLower :: "rune \<Rightarrow> bool" where
  "noLower r = False"

subsection \<open>Stacks for the examples\<close>

text \<open>
  \<open>core_frames m\<close> are the three frames of the library on top of every stack it walks:
  \<open>CallerFuncInfo\<close>, \<open>BuildCallerStack\<close> and the method \<open>m\<close> of \<open>BaseTest\<close> that asked for
  the walk. Below them come the frames of the test. File names and line numbers play
  no role in the classification.
\<close>

definition frame :: "string \<Rightarrow> string \<Rightarrow> int \<Rightarrow> rtframe" where
  "frame name file line = \<lparr>fn_name = Some name, fn_file = file, fn_line = line\<rparr>"

definition core_frames :: "string \<Rightarrow> rtframe list" where
  "core_frames m =
     [frame ''github.com/sbernheim/goonit/core.CallerFuncInfo'' ''core/type.go'' 396,
      frame ''github.com/sbernheim/goonit/core.(*BaseTest).BuildCallerStack'' ''core/type.go'' 472,
      frame (''github.com/sbernheim/goonit/core.(*BaseTest).'' @ m) ''core/type.go'' 259]"

text \<open>The frames at the bottom of every example: the test function and the test runner.\<close>

definition test_frames :: "rtframe list" where
  "test_frames =
     [frame ''example.com/app.TestFind'' ''app/find_test.go'' 21,
      frame ''testing.tRunner'' ''testing/testing.go'' 1595,
      frame ''runtime.goexit'' ''runtime/asm_amd64.s'' 1650]"

text \<open>A test that calls the method \<open>m\<close> itself: no mock is on the stack.\<close>

definition stack_no_mock :: "string \<Rightarrow> rtframe list" where
  "stack_no_mock m = core_frames m @ test_frames"

text \<open>
  A test that calls the tested method \<open>Find\<close>, which calls the mock method \<open>Get\<close>, which
  calls the method \<open>m\<close>.
\<close>

definition stack_one_mock :: "string \<Rightarrow> rtframe list" where
  "stack_one_mock m = core_frames m @
     [frame ''example.com/app.(*MockStore).Get'' ''app/mock_store.go'' 40,
      frame ''example.com/app.(*Service).Find'' ''app/service.go'' 17] @ test_frames"

text \<open>
  Two mocks and two test functions: the mock \<open>Lookup\<close> delegates to the mock \<open>Get\<close>, and
  \<open>TestSuite\<close> calls \<open>TestFind\<close>.
\<close>

definition stack_two_mocks :: "string \<Rightarrow> rtframe list" where
  "stack_two_mocks m = core_frames m @
     [frame ''example.com/app.(*MockStore).Get'' ''app/mock_store.go'' 40,
      frame ''example.com/app.(*MockCache).Lookup'' ''app/mock_cache.go'' 33,
      frame ''example.com/app.(*Service).Find'' ''app/service.go'' 17,
      frame ''example.com/app.TestFind'' ''app/find_test.go'' 21,
      frame ''example.com/app.TestSuite'' ''app/find_test.go'' 9,
      frame ''testing.tRunner'' ''testing/testing.go'' 1595,
      frame ''runtime.goexit'' ''runtime/asm_amd64.s'' 1650]"

text \<open>
  The stacks of the walk that \<open>GetCallerInfo\<close> starts for a retrieval operation: \<open>ms\<close> are
  the methods of \<open>BaseTest\<close> between \<open>GetCallerInfo\<close> and the test, innermost first.
\<close>

definition method_frame :: "string \<Rightarrow> rtframe" where
  "method_frame m = frame (''github.com/sbernheim/goonit/core.(*BaseTest).'' @ m) ''core/type.go'' 300"

definition stack_lookup :: "string list \<Rightarrow> rtframe list" where
  "stack_lookup ms = core_frames ''GetCallerInfo'' @ map method_frame ms @ test_frames"

section \<open>The specification's notions\<close>

text \<open>
  The dot-separated segments of a name: joined with dots they give the name back, and
  none contains a dot. A segment wrapped in parentheses; the segment without the
  parentheses; a name without one leading \<open>*\<close>.
\<close>

definition dot_segments :: "string \<Rightarrow> string list \<Rightarrow> bool" where
  "dot_segments raw segs =
     (segs \<noteq> [] \<and> (\<forall>s\<in>set segs. CHR ''.'' \<notin> set s) \<and> Join segs ''.'' = raw)"

definition parenthesized :: "string \<Rightarrow> bool" where
  "parenthesized s = (2 \<le> length s \<and> hd s = CHR ''('' \<and> last s = CHR '')'')"

definition strip_parens :: "string \<Rightarrow> string" where
  "strip_parens s = butlast (tl s)"

definition strip_one_star :: "string \<Rightarrow> string" where
  "strip_one_star m = (case m of [] \<Rightarrow> [] | c # t \<Rightarrow> if c = CHR ''*'' then t else m)"

text \<open>
  The runtime type of a captured value is assignable to the type of the expected value:
  neither is nil, and \<open>AssignableTo\<close> holds of their dynamic types.
\<close>

definition assignable_to :: "('t \<Rightarrow> 't \<Rightarrow> bool) \<Rightarrow> ('t, 'd) iface \<Rightarrow> ('t, 'd) iface \<Rightarrow> bool" where
  "assignable_to AssignableTo expected c =
     (\<exists>tc dc te de. c = Iface tc dc \<and> expected = Iface te de \<and> AssignableTo tc te)"

section \<open>Parsing a symbol name\<close>

lemma genSplit_no_sep:
  "sep \<notin> set s \<Longrightarrow> genSplit sep cur s = [cur @ s]"
  by (induction s arbitrary: cur) auto

lemma genSplit_sep:
  "sep \<notin> set s \<Longrightarrow> genSplit sep cur (s @ sep # t) = (cur @ s) # genSplit sep [] t"
  by (induction s arbitrary: cur) auto

lemma Join_Cons: "rest \<noteq> [] \<Longrightarrow> Join (a # rest) sep = a @ sep @ Join rest sep"
  by (cases rest) auto

lemma Split_Join:
  "segs \<noteq> [] \<Longrightarrow> \<forall>s\<in>set segs. sep \<notin> set s \<Longrightarrow> Split (Join segs [sep]) sep = segs"
proof (induction segs)
  case Nil
  then show ?case by simp
next
  case (Cons a rest)
  show ?case
  proof (cases "rest = []")
    case True
    with Cons.prems show ?thesis by (simp add: Split_def genSplit_no_sep)
  next
    case False
    with Cons show ?thesis by (simp add: Split_def genSplit_sep Join_Cons)
  qed
qed

lemma dot_segments_Split: "dot_segments raw segs \<Longrightarrow> Split raw CHR ''.'' = segs"
  unfolding dot_segments_def using Split_Join[of segs "CHR ''.''"] by auto

lemma isObjectRef_parenthesized: "isObjectRef s = parenthesized s"
proof (cases s rule: rev_cases)
  case Nil
  then show ?thesis by (simp add: isObjectRef_def parenthesized_def HasPrefix_def HasSuffix_def)
next
  case (snoc ys y)
  then show ?thesis
    by (cases ys) (auto simp add: isObjectRef_def parenthesized_def HasPrefix_def HasSuffix_def)
qed

lemma trimObjectRef_parenthesized:
  "parenthesized s \<Longrightarrow> trimObjectRef s = strip_one_star (strip_parens s)"
proof (cases s rule: rev_cases)
  case Nil
  assume "parenthesized s"
  with Nil show ?thesis by (simp add: parenthesized_def)
next
  case (snoc ys y)
  assume p: "parenthesized s"
  with snoc obtain m where ys: "ys = CHR ''('' # m" and y: "y = CHR '')''"
    by (cases ys) (auto simp add: parenthesized_def)
  show ?thesis unfolding snoc ys y
    by (cases m) (auto simp add: trimObjectRef_def TrimSuffix_def TrimPrefix_def HasPrefix_def HasSuffix_def
        strip_parens_def strip_one_star_def)
qed

lemma findObjectRef_from_first:
  "\<forall>p\<in>set pre. \<not> isObjectRef p \<Longrightarrow> isObjectRef s \<Longrightarrow>
     findObjectRef_from i (pre @ s # post) = Some (i + length pre)"
  by (induction pre arbitrary: i) auto

lemma findObjectRef_from_none:
  "\<forall>p\<in>set refs. \<not> isObjectRef p \<Longrightarrow> findObjectRef_from i refs = None"
  by (induction refs arbitrary: i) auto

lemma genSplit_nonempty: "genSplit sep cur s \<noteq> []"
  by (induction s arbitrary: cur) auto

lemma genSplit_Join: "Join (genSplit sep cur s) [sep] = cur @ s"
proof (induction s arbitrary: cur)
  case Nil
  then show ?case by simp
next
  case (Cons c cs)
  show ?case using Cons[of "[]"] Cons[of "cur @ [c]"] genSplit_nonempty[of sep "[]" cs]
    by (simp add: Join_Cons)
qed

lemma genSplit_sep_free:
  "sep \<notin> set cur \<Longrightarrow> s \<in> set (genSplit sep cur r) \<Longrightarrow> sep \<notin> set s"
proof (induction r arbitrary: cur)
  case Nil
  then show ?case by simp
next
  case (Cons c cs)
  show ?case
  proof (cases "c = sep")
    case True
    with Cons.prems have "s = cur \<or> s \<in> set (genSplit sep [] cs)" by simp
    then show ?thesis using Cons.prems(1) Cons.IH[of "[]"] by auto
  next
    case False
    with Cons.prems have "s \<in> set (genSplit sep (cur @ [c]) cs)" by simp
    then show ?thesis using Cons.prems(1) False Cons.IH[of "cur @ [c]"] by auto
  qed
qed

lemma dot_segments_exists: "dot_segments raw (Split raw CHR ''.'')"
  using genSplit_Join[of "CHR ''.''" "[]" raw] genSplit_sep_free[of "CHR ''.''" "[]" _ raw]
    genSplit_nonempty[of "CHR ''.''" "[]" raw]
  by (auto simp add: dot_segments_def Split_def)

text \<open>
  Claim C3. For every raw name and its dot-separated segments: with fewer than two
  segments the function name is the whole name, the receiver and the namespace are
  empty; otherwise, when some segment is wrapped in parentheses, the first such segment
  \<open>s\<close> is the receiver marker: the function name is the dot-join of the segments after it
  (empty when it is the last one), the receiver is \<open>s\<close> without its parentheses and
  without one leading \<open>*\<close>, the namespace is the dot-join of the segments before it; and
  when no segment is wrapped in parentheses the function name is the last segment, the
  namespace the dot-join of the others, the receiver empty. Every name has such
  segments (\<open>dot_segments_exists\<close>).
\<close>

theorem parseName_spec:
  assumes "dot_segments raw segs"
  shows "(length segs < 2 \<longrightarrow>
            NewFuncInfo raw file line =
              \<lparr>Name = raw, Function = raw, Object = [], Package = [], File = file, Line = line\<rparr>) \<and>
         (2 \<le> length segs \<longrightarrow>
            (\<forall>pre s post. segs = pre @ s # post \<and> (\<forall>p\<in>set pre. \<not> parenthesized p) \<and> parenthesized s \<longrightarrow>
               NewFuncInfo raw file line =
                 \<lparr>Name = raw, Function = Join post ''.'', Object = strip_one_star (strip_parens s),
                  Package = Join pre ''.'', File = file, Line = line\<rparr>) \<and>
            ((\<forall>s\<in>set segs. \<not> parenthesized s) \<longrightarrow>
               NewFuncInfo raw file line =
                 \<lparr>Name = raw, Function = last segs, Object = [],
                  Package = Join (butlast segs) ''.'', File = file, Line = line\<rparr>))"
proof -
  have sp: "Split raw CHR ''.'' = segs" using assms by (rule dot_segments_Split)
  have ne: "segs \<noteq> []" using assms by (simp add: dot_segments_def)
  have short: "length segs < 2 \<Longrightarrow> NewFuncInfo raw file line =
      \<lparr>Name = raw, Function = raw, Object = [], Package = [], File = file, Line = line\<rparr>"
    by (simp add: NewFuncInfo_def parseName_def sp Let_def)
  have found: "NewFuncInfo raw file line =
      \<lparr>Name = raw, Function = Join post ''.'', Object = strip_one_star (strip_parens s),
       Package = Join pre ''.'', File = file, Line = line\<rparr>"
    if "2 \<le> length segs" "segs = pre @ s # post" "\<forall>p\<in>set pre. \<not> parenthesized p" "parenthesized s"
    for pre s post
  proof -
    have "findObjectRef segs = Some (length pre)"
      using that findObjectRef_from_first[of pre s 0 post]
      by (simp add: findObjectRef_def isObjectRef_parenthesized)
    then show ?thesis using that
      by (auto simp add: NewFuncInfo_def parseName_def sp trimObjectRef_parenthesized Let_def)
  qed
  have nofound: "NewFuncInfo raw file line =
      \<lparr>Name = raw, Function = last segs, Object = [],
       Package = Join (butlast segs) ''.'', File = file, Line = line\<rparr>"
    if "2 \<le> length segs" "\<forall>s\<in>set segs. \<not> parenthesized s"
  proof -
    have "findObjectRef segs = None"
      using that findObjectRef_from_none[of segs 0]
      by (simp add: findObjectRef_def isObjectRef_parenthesized)
    then show ?thesis using that ne
      by (auto simp add: NewFuncInfo_def parseName_def sp last_conv_nth butlast_conv_take Let_def)
  qed
  show ?thesis using short found nofound by blast
qed

theorem parseName_spec_witness:
  "dot_segments ''pkg.path.(*Type).Method'' [''pkg'', ''path'', ''(*Type)'', ''Method''] \<and>
   NewFuncInfo ''pkg.path.(*Type).Method'' ''type.go'' 7 =
     \<lparr>Name = ''pkg.path.(*Type).Method'', Function = ''Method'', Object = ''Type'',
      Package = ''pkg.path'', File = ''type.go'', Line = 7\<rparr> \<and>
   dot_segments ''pkg.(**T)'' [''pkg'', ''(**T)''] \<and>
   NewFuncInfo ''pkg.(**T)'' ''type.go'' 7 =
     \<lparr>Name = ''pkg.(**T)'', Function = [], Object = ''*T'',
      Package = ''pkg'', File = ''type.go'', Line = 7\<rparr> \<and>
   dot_segments ''pkg.path.Function'' [''pkg'', ''path'', ''Function''] \<and>
   NewFuncInfo ''pkg.path.Function'' ''type.go'' 7 =
     \<lparr>Name = ''pkg.path.Function'', Function = ''Function'', Object = [],
      Package = ''pkg.path'', File = ''type.go'', Line = 7\<rparr> \<and>
   dot_segments ''main'' [''main''] \<and>
   NewFuncInfo ''main'' ''type.go'' 7 =
     \<lparr>Name = ''main'', Function = ''main'', Object = [],
      Package = [], File = ''type.go'', Line = 7\<rparr>"
proof -
  have d1: "dot_segments ''pkg.path.(*Type).Method'' [''pkg'', ''path'', ''(*Type)'', ''Method'']"
    by (simp add: dot_segments_def)
  have d2: "dot_segments ''pkg.(**T)'' [''pkg'', ''(**T)'']"
    by (simp add: dot_segments_def)
  have d3: "dot_segments ''pkg.path.Function'' [''pkg'', ''path'', ''Function'']"
    by (simp add: dot_segments_def)
  have d4: "dot_segments ''main'' [''main'']"
    by (simp add: dot_segments_def)
  have r1: "NewFuncInfo ''pkg.path.(*Type).Method'' ''type.go'' 7 =
     \<lparr>Name = ''pkg.path.(*Type).Method'', Function = ''Method'', Object = ''Type'',
      Package = ''pkg.path'', File = ''type.go'', Line = 7\<rparr>"
    using parseName_spec[OF d1, of "''type.go''" 7, THEN conjunct2, THEN mp, THEN conjunct1,
        THEN spec, THEN spec, THEN spec, of "[''pkg'', ''path'']" "''(*Type)''" "[''Method'']"]
    by (simp add: parenthesized_def strip_parens_def strip_one_star_def)
  have r2: "NewFuncInfo ''pkg.(**T)'' ''type.go'' 7 =
     \<lparr>Name = ''pkg.(**T)'', Function = [], Object = ''*T'',
      Package = ''pkg'', File = ''type.go'', Line = 7\<rparr>"
    using parseName_spec[OF d2, of "''type.go''" 7, THEN conjunct2, THEN mp, THEN conjunct1,
        THEN spec, THEN spec, THEN spec, of "[''pkg'']" "''(**T)''" "[]"]
    by (simp add: parenthesized_def strip_parens_def strip_one_star_def)
  have r3: "NewFuncInfo ''pkg.path.Function'' ''type.go'' 7 =
     \<lparr>Name = ''pkg.path.Function'', Function = ''Function'', Object = [],
      Package = ''pkg.path'', File = ''type.go'', Line = 7\<rparr>"
    using parseName_spec[OF d3, of "''type.go''" 7, THEN conjunct2, THEN mp, THEN conjunct2]
    by (simp add: parenthesized_def)
  have r4: "NewFuncInfo ''main'' ''type.go'' 7 =
     \<lparr>Name = ''main'', Function = ''main'', Object = [],
      Package = [], File = ''type.go'', Line = 7\<rparr>"
    using parseName_spec[OF d4, of "''type.go''" 7, THEN conjunct1]
    by simp
  show ?thesis using d1 d2 d3 d4 r1 r2 r3 r4 by blast
qed

section \<open>The word-boundary prefix rule\<close>

lemma HasPrefix_iff: "HasPrefix s p \<longleftrightarrow> (\<exists>rest. s = p @ rest)"
proof
  assume "HasPrefix s p"
  then have "s = p @ drop (length p) s"
    by (metis HasPrefix_def append_take_drop_id)
  then show "\<exists>rest. s = p @ rest" ..
next
  assume "\<exists>rest. s = p @ rest"
  then show "HasPrefix s p" by (auto simp add: HasPrefix_def)
qed

lemma startsWith_iff:
  "startsWith Lower name p \<longleftrightarrow>
     (\<exists>rest. name = p @ rest \<and> (rest = [] \<or> \<not> IsLower Lower (fst (DecodeRuneInString rest))))"
  by (auto simp add: startsWith_def HasPrefix_iff)

lemmas rune_eval = DecodeRuneInString_def byte_of_def IsLower_def MaxLatin1_def RuneError_def Let_def

lemmas frame_eval = NewFuncInfo_def parseName_def Split_def findObjectRef_def isObjectRef_def
  HasPrefix_def HasSuffix_def trimObjectRef_def TrimPrefix_def TrimSuffix_def
  IsMock_def IsTest_def startsWith_def

text \<open>
  Claim C4. \<open>IsTest\<close> holds exactly when the function name is one of the prefixes
  \<open>Test\<close>, \<open>Benchmark\<close>, \<open>Example\<close> followed by nothing, or by a character that is not a
  lower-case letter; \<open>TestFoo\<close>, \<open>Test\<close>, \<open>BenchmarkX\<close> and \<open>ExampleY\<close> are test names and
  \<open>Testing\<close> is not.
\<close>

theorem IsTest_word_boundary:
  "(IsTest Lower f \<longleftrightarrow>
      (\<exists>p\<in>set [''Test'', ''Benchmark'', ''Example'']. \<exists>rest.
          Function f = p @ rest \<and>
          (rest = [] \<or> \<not> IsLower Lower (fst (DecodeRuneInString rest))))) \<and>
   IsTest Lower (f\<lparr>Function := ''TestFoo''\<rparr>) \<and>
   \<not> IsTest Lower (f\<lparr>Function := ''Testing''\<rparr>) \<and>
   IsTest Lower (f\<lparr>Function := ''Test''\<rparr>) \<and>
   IsTest Lower (f\<lparr>Function := ''BenchmarkX''\<rparr>) \<and>
   IsTest Lower (f\<lparr>Function := ''ExampleY''\<rparr>)"
proof -
  have general: "IsTest Lower f \<longleftrightarrow>
      (\<exists>p\<in>set [''Test'', ''Benchmark'', ''Example'']. \<exists>rest.
          Function f = p @ rest \<and>
          (rest = [] \<or> \<not> IsLower Lower (fst (DecodeRuneInString rest))))"
    unfolding IsTest_def startsWith_iff by simp
  have examples: "IsTest Lower (f\<lparr>Function := ''TestFoo''\<rparr>)"
    "\<not> IsTest Lower (f\<lparr>Function := ''Testing''\<rparr>)"
    "IsTest Lower (f\<lparr>Function := ''Test''\<rparr>)"
    "IsTest Lower (f\<lparr>Function := ''BenchmarkX''\<rparr>)"
    "IsTest Lower (f\<lparr>Function := ''ExampleY''\<rparr>)"
    by (simp_all add: IsTest_def startsWith_def HasPrefix_def rune_eval)
  show ?thesis using general examples by blast
qed


theorem IsTest_word_boundary_witness:
  "IsTest noLower (NewFuncInfo ''pkg.TestFoo'' ''foo_test.go'' 12) \<and>
   \<not> IsTest noLower (NewFuncInfo ''pkg.Testing'' ''foo_test.go'' 12)"
proof -
  have f1: "Function (NewFuncInfo ''pkg.TestFoo'' ''foo_test.go'' 12) = ''Test'' @ ''Foo''"
    by (simp add: NewFuncInfo_def parseName_def Split_def findObjectRef_def isObjectRef_def
        HasPrefix_def HasSuffix_def)
  have f2: "Function (NewFuncInfo ''pkg.Testing'' ''foo_test.go'' 12) = ''Testing''"
    by (simp add: NewFuncInfo_def parseName_def Split_def findObjectRef_def isObjectRef_def
        HasPrefix_def HasSuffix_def)
  have l1: "\<not> IsLower noLower (fst (DecodeRuneInString ''Foo''))"
    by (simp add: rune_eval)
  have l2: "IsLower noLower (fst (DecodeRuneInString ''ing''))"
    by (simp add: rune_eval)
  have "IsTest noLower (NewFuncInfo ''pkg.TestFoo'' ''foo_test.go'' 12)"
    using IsTest_word_boundary[of noLower "NewFuncInfo ''pkg.TestFoo'' ''foo_test.go'' 12",
        THEN conjunct1] f1 l1 by auto
  moreover have "\<not> IsTest noLower (NewFuncInfo ''pkg.Testing'' ''foo_test.go'' 12)"
    using IsTest_word_boundary[of noLower "NewFuncInfo ''pkg.Testing'' ''foo_test.go'' 12",
        THEN conjunct1] f2 l2 by auto
  ultimately show ?thesis by blast
qed

text \<open>
  Claim C5 gives \<open>IsMock\<close> as true for the receivers \<open>Mocker\<close> and \<open>Mockish\<close>. In both the
  character after \<open>Mock\<close> is a lower-case letter, and \<open>startsWith\<close> answers false.
\<close>

theorem IsMock_Mocker_counterexample:
  "\<not> IsMock noLower (NewFuncInfo ''pkg.(*Mocker).Do'' ''mocker.go'' 12) \<and>
   \<not> IsMock noLower (NewFuncInfo ''pkg.(*Mockish).Do'' ''mockish.go'' 12)"
  by (simp add: frame_eval rune_eval)

text \<open>
  Claim C5, amended. \<open>IsMock\<close> holds exactly when the receiver-type name is \<open>Mock\<close>
  followed by nothing, or by a character that is not a lower-case letter:
  \<open>MockLogger\<close> is a mock receiver; \<open>Mocker\<close>, \<open>mocker\<close> and \<open>Mockish\<close> are not.
\<close>

theorem IsMock_word_boundary:
  "(IsMock Lower f \<longleftrightarrow>
      (\<exists>rest. Object f = ''Mock'' @ rest \<and>
          (rest = [] \<or> \<not> IsLower Lower (fst (DecodeRuneInString rest))))) \<and>
   IsMock Lower (f\<lparr>Object := ''MockLogger''\<rparr>) \<and>
   \<not> IsMock Lower (f\<lparr>Object := ''Mocker''\<rparr>) \<and>
   \<not> IsMock Lower (f\<lparr>Object := ''mocker''\<rparr>) \<and>
   \<not> IsMock Lower (f\<lparr>Object := ''Mockish''\<rparr>)"
proof -
  have general: "IsMock Lower f \<longleftrightarrow>
      (\<exists>rest. Object f = ''Mock'' @ rest \<and>
          (rest = [] \<or> \<not> IsLower Lower (fst (DecodeRuneInString rest))))"
    unfolding IsMock_def startsWith_iff by simp
  have examples: "IsMock Lower (f\<lparr>Object := ''MockLogger''\<rparr>)"
    "\<not> IsMock Lower (f\<lparr>Object := ''Mocker''\<rparr>)"
    "\<not> IsMock Lower (f\<lparr>Object := ''mocker''\<rparr>)"
    "\<not> IsMock Lower (f\<lparr>Object := ''Mockish''\<rparr>)"
    by (simp_all add: IsMock_def startsWith_def HasPrefix_def rune_eval)
  show ?thesis using general examples by blast
qed

theorem IsMock_word_boundary_witness:
  "IsMock noLower (NewFuncInfo ''pkg.(*MockLogger).Info'' ''mockLogger.go'' 40) \<and>
   \<not> IsMock noLower (NewFuncInfo ''pkg.(*Mockery).Info'' ''mockery.go'' 40)"
proof -
  have f1: "Object (NewFuncInfo ''pkg.(*MockLogger).Info'' ''mockLogger.go'' 40) = ''Mock'' @ ''Logger''"
    by (simp add: frame_eval)
  have f2: "Object (NewFuncInfo ''pkg.(*Mockery).Info'' ''mockery.go'' 40) = ''Mockery''"
    by (simp add: frame_eval)
  have l1: "\<not> IsLower noLower (fst (DecodeRuneInString ''Logger''))"
    by (simp add: rune_eval)
  have l2: "IsLower noLower (fst (DecodeRuneInString ''ery''))"
    by (simp add: rune_eval)
  have "IsMock noLower (NewFuncInfo ''pkg.(*MockLogger).Info'' ''mockLogger.go'' 40)"
    using IsMock_word_boundary[of noLower "NewFuncInfo ''pkg.(*MockLogger).Info'' ''mockLogger.go'' 40",
        THEN conjunct1] f1 l1 by auto
  moreover have "\<not> IsMock noLower (NewFuncInfo ''pkg.(*Mockery).Info'' ''mockery.go'' 40)"
    using IsMock_word_boundary[of noLower "NewFuncInfo ''pkg.(*Mockery).Info'' ''mockery.go'' 40",
        THEN conjunct1] f2 l2 by auto
  ultimately show ?thesis by blast
qed

section \<open>The walk\<close>

lemma walk_resolved: "walk Lower rt i s = walk_frames Lower s (resolved rt i)"
proof (induction Lower rt i s rule: walk.induct)
  case (1 Lower rt i s)
  show ?case
  proof (cases "CallerFuncInfo rt i")
    case None
    then show ?thesis by (simp add: walk.simps[of Lower rt i s] resolved.simps[of rt i])
  next
    case (Some f)
    show ?thesis
    proof (cases "walk_frame Lower s f")
      case (Inl e)
      with Some show ?thesis by (simp add: walk.simps[of Lower rt i s] resolved.simps[of rt i])
    next
      case (Inr s')
      with Some "1.IH"[of f s'] show ?thesis
        by (simp add: walk.simps[of Lower rt i s] resolved.simps[of rt i])
    qed
  qed
qed

lemma walk_frame_total:
  assumes "this_f s = Some t"
  shows "\<exists>s'. walk_frame Lower s f = Inr s'"
  using assms by (simp add: walk_frame_def Let_def)

lemma walk_frame_fields:
  assumes "walk_frame Lower s f = Inr s'"
  shows "this_f s' = this_f s" and "Stack s' = Stack s @ [f]" and "last_f s' = Some f"
    and "Mocker s' = (if last_f s = Mocked s then Some f else Mocker s)"
    and "Mocked s' = (if IsMock Lower (snd f) then Some f else Mocked s)"
    and "Test s' = (if IsTest Lower (snd f) then Some f else Test s)"
    and "Tested s' = (if IsTest Lower (snd f) then last_f s else Tested s)"
    and "Caller s \<noteq> None \<Longrightarrow> Caller s' = Caller s"
    and "Caller s = None \<Longrightarrow> this_f s = Some t \<Longrightarrow>
           Caller s' = (if Package (snd f) \<noteq> Package (snd t) then Some f else None)"
  using assms by (auto simp add: walk_frame_def Let_def split: if_splits option.splits)

lemma walk_frames_snoc:
  "walk_frames Lower s (fs @ [f]) =
     (case walk_frames Lower s fs of Inl e \<Rightarrow> Inl e | Inr s' \<Rightarrow> walk_frame Lower s' f)"
  by (induction fs arbitrary: s) (auto split: sum.splits)

lemma walk_frames_snoc_Inr:
  assumes "walk_frames Lower s (fs @ [f]) = Inr s'"
  obtains s1 where "walk_frames Lower s fs = Inr s1" and "walk_frame Lower s1 f = Inr s'"
  using assms by (auto simp add: walk_frames_snoc split: sum.splits)

lemma walk_frames_total:
  assumes "this_f s = Some t"
  shows "\<exists>s'. walk_frames Lower s fs = Inr s'"
  using assms
proof (induction fs arbitrary: s)
  case Nil
  then show ?case by simp
next
  case (Cons f fs)
  from walk_frame_total[OF Cons.prems] obtain s1 where s1: "walk_frame Lower s f = Inr s1" by blast
  with Cons.prems have "this_f s1 = Some t" by (simp add: walk_frame_fields(1))
  from Cons.IH[OF this] s1 show ?case by simp
qed

lemma walk_frames_basic:
  assumes "walk_frames Lower s fs = Inr s'"
  shows "this_f s' = this_f s \<and> Stack s' = Stack s @ fs \<and>
         last_f s' = (if fs = [] then last_f s else Some (last fs))"
  using assms
proof (induction fs arbitrary: s' rule: rev_induct)
  case Nil
  then show ?case by simp
next
  case (snoc f fs)
  from snoc.prems obtain s1 where a: "walk_frames Lower s fs = Inr s1"
    and b: "walk_frame Lower s1 f = Inr s'" by (rule walk_frames_snoc_Inr)
  from snoc.IH[OF a] walk_frame_fields(1,2,3)[OF b] show ?case by simp
qed

lemma BuildCallerStack_total: "\<exists>s. BuildCallerStack Lower rt = Inr s"
proof (cases "CallerFuncInfo rt 1")
  case None
  then show ?thesis by (simp add: BuildCallerStack_def)
next
  case (Some t)
  then show ?thesis
    using walk_frames_total[of "new_FuncInfoStack\<lparr>this_f := Some t\<rparr>" t Lower "resolved rt 3"]
    by (simp add: BuildCallerStack_def walk_resolved)
qed

lemma walk_frames_Caller_stable:
  assumes "walk_frames Lower s fs = Inr s'" and "Caller s \<noteq> None"
  shows "Caller s' = Caller s"
  using assms
proof (induction fs arbitrary: s' rule: rev_induct)
  case Nil
  then show ?case by simp
next
  case (snoc f fs)
  from snoc.prems(1) obtain s1 where a: "walk_frames Lower s fs = Inr s1"
    and b: "walk_frame Lower s1 f = Inr s'" by (rule walk_frames_snoc_Inr)
  from snoc.IH[OF a snoc.prems(2)] have "Caller s1 = Caller s" .
  with walk_frame_fields(8)[OF b] snoc.prems(2) show ?case by simp
qed

lemma walk_frames_Caller_none:
  assumes "walk_frames Lower s fs = Inr s'" and "Caller s = None" and "this_f s = Some t"
    and "\<forall>p\<in>set fs. Package (snd p) = Package (snd t)"
  shows "Caller s' = None"
  using assms
proof (induction fs arbitrary: s' rule: rev_induct)
  case Nil
  then show ?case by simp
next
  case (snoc f fs)
  from snoc.prems(1) obtain s1 where a: "walk_frames Lower s fs = Inr s1"
    and b: "walk_frame Lower s1 f = Inr s'" by (rule walk_frames_snoc_Inr)
  from snoc.IH[OF a] snoc.prems have c: "Caller s1 = None" by simp
  from walk_frames_basic[OF a] snoc.prems(3) have d: "this_f s1 = Some t" by simp
  from walk_frame_fields(9)[OF b c d] snoc.prems(4) show ?case by simp
qed

lemma walk_frames_Caller_first:
  assumes "walk_frames Lower s (pre @ c # post) = Inr s'" and "Caller s = None"
    and "this_f s = Some t"
    and "\<forall>p\<in>set pre. Package (snd p) = Package (snd t)"
    and "Package (snd c) \<noteq> Package (snd t)"
  shows "Caller s' = Some c"
proof -
  have "pre @ c # post = (pre @ [c]) @ post" by simp
  from assms(1) walk_frames_total[OF assms(3), of Lower "pre @ [c]"]
  obtain s2 where s2: "walk_frames Lower s (pre @ [c]) = Inr s2" by blast
  then obtain s1 where a: "walk_frames Lower s pre = Inr s1"
    and b: "walk_frame Lower s1 c = Inr s2" by (rule walk_frames_snoc_Inr)
  from walk_frames_Caller_none[OF a assms(2,3,4)] have c1: "Caller s1 = None" .
  from walk_frames_basic[OF a] assms(3) have d: "this_f s1 = Some t" by simp
  from walk_frame_fields(9)[OF b c1 d] assms(5) have c2: "Caller s2 = Some c" by simp
  have app: "\<And>xs ys s. walk_frames Lower s (xs @ ys) =
      (case walk_frames Lower s xs of Inl e \<Rightarrow> Inl e | Inr s1 \<Rightarrow> walk_frames Lower s1 ys)"
  proof -
    fix xs ys s show "walk_frames Lower s (xs @ ys) =
      (case walk_frames Lower s xs of Inl e \<Rightarrow> Inl e | Inr s1 \<Rightarrow> walk_frames Lower s1 ys)"
      by (induction xs arbitrary: s) (auto split: sum.splits)
  qed
  from assms(1) s2 app[of s "pre @ [c]" post] have "walk_frames Lower s2 post = Inr s'" by simp
  from walk_frames_Caller_stable[OF this] c2 show ?thesis by simp
qed

lemma walk_frames_Test_last:
  assumes "walk_frames Lower s (pre @ f # post) = Inr s'" and "IsTest Lower (snd f)"
    and "\<forall>p\<in>set post. \<not> IsTest Lower (snd p)"
  shows "Test s' = Some f \<and> Tested s' = (if pre = [] then last_f s else Some (last pre))"
  using assms(1,3)
proof (induction post arbitrary: s' rule: rev_induct)
  case Nil
  from Nil.prems(1) obtain s1 where a: "walk_frames Lower s pre = Inr s1"
    and b: "walk_frame Lower s1 f = Inr s'" by (rule walk_frames_snoc_Inr)
  from walk_frames_basic[OF a] walk_frame_fields(6,7)[OF b] assms(2) show ?case by simp
next
  case (snoc p post)
  have "pre @ f # post @ [p] = (pre @ f # post) @ [p]" by simp
  with snoc.prems(1) obtain s1 where a: "walk_frames Lower s (pre @ f # post) = Inr s1"
    and b: "walk_frame Lower s1 p = Inr s'" by (metis walk_frames_snoc_Inr)
  from snoc.IH[OF a] snoc.prems(2) walk_frame_fields(6,7)[OF b] show ?case by simp
qed

lemma walk_frames_Mocked_last:
  assumes "walk_frames Lower s (pre @ m # post) = Inr s'" and "IsMock Lower (snd m)"
    and "\<forall>p\<in>set post. \<not> IsMock Lower (snd p)"
  shows "Mocked s' = Some m \<and> (post \<noteq> [] \<longrightarrow> Mocker s' = Some (hd post))"
  using assms(1,3)
proof (induction post arbitrary: s' rule: rev_induct)
  case Nil
  from Nil.prems(1) obtain s1 where a: "walk_frames Lower s pre = Inr s1"
    and b: "walk_frame Lower s1 m = Inr s'" by (rule walk_frames_snoc_Inr)
  from walk_frame_fields(5)[OF b] assms(2) show ?case by simp
next
  case (snoc p post)
  have "pre @ m # post @ [p] = (pre @ m # post) @ [p]" by simp
  with snoc.prems(1) obtain s1 where a: "walk_frames Lower s (pre @ m # post) = Inr s1"
    and b: "walk_frame Lower s1 p = Inr s'" by (metis walk_frames_snoc_Inr)
  from snoc.prems(2) have np: "\<not> IsMock Lower (snd p)" and npost: "\<forall>q\<in>set post. \<not> IsMock Lower (snd q)"
    by simp_all
  from snoc.IH[OF a npost] have m1: "Mocked s1 = Some m"
    and k1: "post \<noteq> [] \<longrightarrow> Mocker s1 = Some (hd post)" by simp_all
  from walk_frames_basic[OF a] have l1: "last_f s1 = Some (last (m # post))" by simp
  have mocked: "Mocked s' = Some m" using walk_frame_fields(5)[OF b] np m1 by simp
  have mocker: "Mocker s' = Some (hd (post @ [p]))"
  proof (cases "post = []")
    case True
    with l1 m1 walk_frame_fields(4)[OF b] show ?thesis by simp
  next
    case False
    then have "last post \<in> set post" by simp
    with npost assms(2) have "last post \<noteq> m" by auto
    with False l1 m1 have "last_f s1 \<noteq> Mocked s1" by simp
    with walk_frame_fields(4)[OF b] k1 False show ?thesis by simp
  qed
  from mocked mocker show ?case by simp
qed

lemma walk_frames_Mocked_none:
  assumes "walk_frames Lower s fs = Inr s'" and "Mocked s = None"
    and "\<forall>p\<in>set fs. \<not> IsMock Lower (snd p)"
  shows "Mocked s' = None"
  using assms
proof (induction fs arbitrary: s' rule: rev_induct)
  case Nil
  then show ?case by simp
next
  case (snoc f fs)
  from snoc.prems(1) obtain s1 where a: "walk_frames Lower s fs = Inr s1"
    and b: "walk_frame Lower s1 f = Inr s'" by (rule walk_frames_snoc_Inr)
  from snoc.IH[OF a] snoc.prems have "Mocked s1 = None" by simp
  with walk_frame_fields(5)[OF b] snoc.prems(3) show ?case by simp
qed

lemma walk_frames_Mocker_set:
  assumes "walk_frames Lower s fs = Inr s'" and "fs \<noteq> []" and "last_f s = Mocked s"
  shows "Mocker s' \<noteq> None"
  using assms
proof (induction fs arbitrary: s' rule: rev_induct)
  case Nil
  then show ?case by simp
next
  case (snoc f fs)
  from snoc.prems(1) obtain s1 where a: "walk_frames Lower s fs = Inr s1"
    and b: "walk_frame Lower s1 f = Inr s'" by (rule walk_frames_snoc_Inr)
  show ?case
  proof (cases "fs = []")
    case True
    with a snoc.prems(3) walk_frame_fields(4)[OF b] show ?thesis by simp
  next
    case False
    from snoc.IH[OF a False snoc.prems(3)] walk_frame_fields(4)[OF b] show ?thesis by auto
  qed
qed

lemma CallerFuncInfo_reported:
  assumes "\<forall>fr\<in>set rt. fn_name fr \<noteq> None \<and> fn_file fr \<noteq> ''<autogenerated>''" and "j < length rt"
  shows "\<exists>name. fn_name (rt ! j) = Some name \<and>
           CallerFuncInfo rt j = Some (j, NewFuncInfo name (fn_file (rt ! j)) (fn_line (rt ! j)))"
proof -
  from assms have "rt ! j \<in> set rt" by simp
  with assms(1) have "fn_name (rt ! j) \<noteq> None" and "fn_file (rt ! j) \<noteq> ''<autogenerated>''"
    by blast+
  with assms(2) show ?thesis by (auto simp add: CallerFuncInfo_def Let_def)
qed

lemma resolved_member:
  assumes "\<forall>fr\<in>set rt. fn_name fr \<noteq> None \<and> fn_file fr \<noteq> ''<autogenerated>''"
    and "i \<le> j" and "j < length rt" and "CallerFuncInfo rt j = Some f"
  shows "f \<in> set (resolved rt i)"
  using assms
proof (induction rt i rule: resolved.induct)
  case (1 rt i)
  from "1.prems" have "i < length rt" by simp
  from CallerFuncInfo_reported[OF "1.prems"(1) this] obtain g where g: "CallerFuncInfo rt i = Some g"
    by blast
  then have unfold: "resolved rt i = g # resolved rt (i + 1)"
    by (simp add: resolved.simps[of rt i])
  show ?case
  proof (cases "i = j")
    case True
    with g "1.prems"(4) have "f = g" by simp
    with unfold show ?thesis by simp
  next
    case False
    with "1.prems" have "i + 1 \<le> j" by simp
    from "1.IH"[OF g "1.prems"(1) this "1.prems"(3,4)] unfold show ?thesis by simp
  qed
qed

lemma walk_frames_Caller_nil_packages:
  assumes "walk_frames Lower s fs = Inr s'" and "this_f s = Some t" and "Caller s' = None"
  shows "\<forall>p\<in>set fs. Package (snd p) = Package (snd t)"
  using assms(1,3)
proof (induction fs arbitrary: s' rule: rev_induct)
  case Nil
  then show ?case by simp
next
  case (snoc f fs)
  from snoc.prems(1) obtain s1 where a: "walk_frames Lower s fs = Inr s1"
    and b: "walk_frame Lower s1 f = Inr s'" by (rule walk_frames_snoc_Inr)
  have c1: "Caller s1 = None"
  proof (rule ccontr)
    assume "Caller s1 \<noteq> None"
    from walk_frame_fields(8)[OF b this] this snoc.prems(2) show False by simp
  qed
  from walk_frames_basic[OF a] assms(2) have d: "this_f s1 = Some t" by simp
  from walk_frame_fields(9)[OF b c1 d] snoc.prems(2)
  have "Package (snd f) = Package (snd t)" by (simp split: if_splits)
  with snoc.IH[OF a c1] show ?case by simp
qed

section \<open>What the walk returns\<close>

lemmas stack_eval = BuildCallerStack_def new_FuncInfoStack_def walk.simps resolved.simps
  walk_frame_def CallerFuncInfo_def frame_def core_frames_def test_frames_def

lemma BuildCallerStack_cases:
  assumes "BuildCallerStack Lower rt = Inr s"
  obtains (unresolved) "CallerFuncInfo rt 1 = None" and "s = new_FuncInfoStack"
  | (walked) t where "CallerFuncInfo rt 1 = Some t"
      and "walk_frames Lower (new_FuncInfoStack\<lparr>this_f := Some t\<rparr>) (resolved rt 3) = Inr s"
  using assms by (cases "CallerFuncInfo rt 1") (auto simp add: BuildCallerStack_def walk_resolved)

lemma BuildCallerStack_Stack:
  assumes "BuildCallerStack Lower rt = Inr s"
  shows "Stack s = (if CallerFuncInfo rt 1 = None then [] else resolved rt 3)"
  using assms
proof (cases rule: BuildCallerStack_cases)
  case unresolved
  then show ?thesis by (simp add: new_FuncInfoStack_def)
next
  case (walked t)
  from walk_frames_basic[OF walked(2)] walked(1) show ?thesis by (simp add: new_FuncInfoStack_def)
qed

lemma BuildCallerStack_Mocked_none:
  assumes "BuildCallerStack Lower rt = Inr s" and "\<forall>f\<in>set (Stack s). \<not> IsMock Lower (snd f)"
  shows "Mocked s = None"
  using assms(1)
proof (cases rule: BuildCallerStack_cases)
  case unresolved
  then show ?thesis by (simp add: new_FuncInfoStack_def)
next
  case (walked t)
  from walk_frames_basic[OF walked(2)] have "Stack s = resolved rt 3"
    by (simp add: new_FuncInfoStack_def)
  with assms(2) walk_frames_Mocked_none[OF walked(2)] show ?thesis
    by (simp add: new_FuncInfoStack_def)
qed


lemma BuildCallerStack_Mocker_not_nil:
  assumes "BuildCallerStack Lower rt = Inr s" and "Stack s \<noteq> []"
  shows "Mocker s \<noteq> None"
  using assms(1)
proof (cases rule: BuildCallerStack_cases)
  case unresolved
  with assms(2) show ?thesis by (simp add: new_FuncInfoStack_def)
next
  case (walked t)
  from walk_frames_basic[OF walked(2)] assms(2) have "resolved rt 3 \<noteq> []"
    by (simp add: new_FuncInfoStack_def)
  from walk_frames_Mocker_set[OF walked(2) this] show ?thesis
    by (simp add: new_FuncInfoStack_def)
qed

lemma goexit_Package: "Package (NewFuncInfo ''runtime.goexit'' file line) = ''runtime''"
  by (simp add: frame_eval)

lemma reported_stack_Caller:
  assumes "reported_stack rt" and "BuildCallerStack Lower rt = Inr s"
  shows "Caller s \<noteq> None"
proof
  assume nil: "Caller s = None"
  from assms(1) have len: "3 < length rt"
    and res: "\<forall>fr\<in>set rt. fn_name fr \<noteq> None \<and> fn_file fr \<noteq> ''<autogenerated>''"
    and bottom: "fn_name (last rt) = Some ''runtime.goexit''"
    and this: "case CallerFuncInfo rt 1 of None \<Rightarrow> False | Some t \<Rightarrow> Package (snd t) \<noteq> ''runtime''"
    by (simp_all add: reported_stack_def)
  from this obtain t where t: "CallerFuncInfo rt 1 = Some t" and tp: "Package (snd t) \<noteq> ''runtime''"
    by (auto split: option.splits)
  from assms(2) t have w: "walk_frames Lower (new_FuncInfoStack\<lparr>this_f := Some t\<rparr>) (resolved rt 3) = Inr s"
    by (simp add: BuildCallerStack_def walk_resolved)
  let ?j = "length rt - 1"
  from len have j: "?j < length rt" "3 \<le> ?j" by simp_all
  from len have "rt \<noteq> []" by auto
  then have lastj: "rt ! ?j = last rt" by (simp add: last_conv_nth)
  from CallerFuncInfo_reported[OF res j(1)] bottom lastj
  have g: "CallerFuncInfo rt ?j =
      Some (?j, NewFuncInfo ''runtime.goexit'' (fn_file (rt ! ?j)) (fn_line (rt ! ?j)))" by auto
  from resolved_member[OF res j(2) j(1) g]
  have mem: "(?j, NewFuncInfo ''runtime.goexit'' (fn_file (rt ! ?j)) (fn_line (rt ! ?j)))
      \<in> set (resolved rt 3)" .
  from walk_frames_Caller_nil_packages[OF w _ nil, of t] mem
  have "Package (NewFuncInfo ''runtime.goexit'' (fn_file (rt ! ?j)) (fn_line (rt ! ?j))) = Package (snd t)"
    by (auto simp add: new_FuncInfoStack_def)
  with tp show False by (simp add: goexit_Package)
qed

text \<open>
  Claim C1 says that a walk in which no resolved frame is a mock frame leaves both
  \<open>Mocked\<close> and \<open>Mocker\<close> nil. \<open>Mocked\<close> stays nil (\<open>BuildCallerStack_Mocked_none\<close>), but in
  the first iteration \<open>s.last\<close> and \<open>s.Mocked\<close> are both nil, the test \<open>s.last == s.Mocked\<close>
  succeeds and \<open>Mocker\<close> becomes the first walked frame
  (\<open>BuildCallerStack_Mocker_not_nil\<close>). Here a test calls \<open>Capture\<close> itself: none of
  the three walked frames is a mock frame, and \<open>Mocker\<close> is the frame of the test.
\<close>

theorem Mocker_set_without_mock:
  "list_all (\<lambda>f. \<not> IsMock noLower (snd f)) (resolved (stack_no_mock ''Capture'') 3) \<and>
   map_sum id Stack (BuildCallerStack noLower (stack_no_mock ''Capture'')) =
     Inr (resolved (stack_no_mock ''Capture'') 3) \<and>
   map_sum id Mocked (BuildCallerStack noLower (stack_no_mock ''Capture'')) = Inr None \<and>
   map_sum id Mocker (BuildCallerStack noLower (stack_no_mock ''Capture'')) =
     Inr (Some (3, NewFuncInfo ''example.com/app.TestFind'' ''app/find_test.go'' 21))"
  by (simp add: stack_eval stack_no_mock_def frame_eval rune_eval)

text \<open>
  Claim C10. When no walked frame is a mock frame, \<open>GetMockedCallName\<close> neither returns
  a key nor fails the test: \<open>MockedCall\<close> dereferences the nil \<open>Mocked\<close> (or, on an empty
  walk, the nil \<open>Mocker\<close>) and panics. The walk itself always returns
  (\<open>BuildCallerStack_total\<close>).
\<close>

theorem GetMockedCallName_crashes:
  assumes "BuildCallerStack Lower rt = Inr s" and "\<forall>f\<in>set (Stack s). \<not> IsMock Lower (snd f)"
  shows "GetMockedCallName Lower rt = Inl NilDereference"
proof -
  from BuildCallerStack_Mocked_none[OF assms] have "Mocked s = None" .
  then have "MockedCall s = Inl NilDereference"
    by (simp add: MockedCall_def split: option.splits)
  with assms(1) show ?thesis by (simp add: GetMockedCallName_def)
qed

theorem GetMockedCallName_crashes_witness:
  "resolved (stack_no_mock ''GetMockedCallName'') 3 \<noteq> [] \<and>
   list_all (\<lambda>f. \<not> IsMock noLower (snd f)) (resolved (stack_no_mock ''GetMockedCallName'') 3) \<and>
   GetMockedCallName noLower (stack_no_mock ''GetMockedCallName'') = Inl NilDereference"
proof -
  obtain s where s: "BuildCallerStack noLower (stack_no_mock ''GetMockedCallName'') = Inr s"
    using BuildCallerStack_total by blast
  have st: "Stack s = resolved (stack_no_mock ''GetMockedCallName'') 3"
    using BuildCallerStack_Stack[OF s] by (simp add: stack_eval stack_no_mock_def)
  have nm: "list_all (\<lambda>f. \<not> IsMock noLower (snd f)) (Stack s)" unfolding st
    by (simp add: stack_eval stack_no_mock_def frame_eval rune_eval)
  have ne: "Stack s \<noteq> []" unfolding st
    by (simp add: stack_eval stack_no_mock_def)
  from nm have "\<forall>f\<in>set (Stack s). \<not> IsMock noLower (snd f)" by (simp add: list_all_iff)
  from GetMockedCallName_crashes[OF s this] nm ne st show ?thesis by simp
qed

text \<open>
  Claim C2, amended. \<open>Caller\<close> is the first walked frame whose package differs from the
  package of the walker and is never overwritten (\<open>walk_frames_Caller_stable\<close>). The
  other fields are overwritten by every later frame that matches: at the end of the
  walk \<open>Test\<close> is the last walked test frame and \<open>Tested\<close> the frame walked just before
  it, \<open>Mocked\<close> is the last walked mock frame and \<open>Mocker\<close> the frame walked just after it,
  when there is one.
\<close>

theorem BuildCallerStack_matches:
  assumes "BuildCallerStack Lower rt = Inr s"
  shows "(\<forall>pre c post t. Stack s = pre @ c # post \<and> this_f s = Some t \<and>
             (\<forall>p\<in>set pre. Package (snd p) = Package (snd t)) \<and>
             Package (snd c) \<noteq> Package (snd t) \<longrightarrow>
           Caller s = Some c) \<and>
         (\<forall>pre f post. Stack s = pre @ f # post \<and> IsTest Lower (snd f) \<and>
             (\<forall>p\<in>set post. \<not> IsTest Lower (snd p)) \<longrightarrow>
           Test s = Some f \<and> Tested s = (if pre = [] then None else Some (last pre))) \<and>
         (\<forall>pre f post. Stack s = pre @ f # post \<and> IsMock Lower (snd f) \<and>
             (\<forall>p\<in>set post. \<not> IsMock Lower (snd p)) \<longrightarrow>
           Mocked s = Some f \<and> (post \<noteq> [] \<longrightarrow> Mocker s = Some (hd post)))"
  using assms
proof (cases rule: BuildCallerStack_cases)
  case unresolved
  then show ?thesis by (simp add: new_FuncInfoStack_def)
next
  case (walked t0)
  let ?s0 = "new_FuncInfoStack\<lparr>this_f := Some t0\<rparr>"
  from walk_frames_basic[OF walked(2)]
  have st: "Stack s = resolved rt 3" and th: "this_f s = Some t0"
    by (simp_all add: new_FuncInfoStack_def)
  have caller: "Caller s = Some c"
    if "Stack s = pre @ c # post" "this_f s = Some t"
      "\<forall>p\<in>set pre. Package (snd p) = Package (snd t)" "Package (snd c) \<noteq> Package (snd t)"
    for pre c post t
  proof -
    from that(2) th have "t = t0" by simp
    with that st walked(2) walk_frames_Caller_first[of Lower ?s0 pre c post s t0]
    show ?thesis by (simp add: new_FuncInfoStack_def)
  qed
  have test: "Test s = Some f \<and> Tested s = (if pre = [] then None else Some (last pre))"
    if "Stack s = pre @ f # post" "IsTest Lower (snd f)" "\<forall>p\<in>set post. \<not> IsTest Lower (snd p)"
    for pre f post
    using that st walked(2) walk_frames_Test_last[of Lower ?s0 pre f post s]
    by (simp add: new_FuncInfoStack_def)
  have mock: "Mocked s = Some f \<and> (post \<noteq> [] \<longrightarrow> Mocker s = Some (hd post))"
    if "Stack s = pre @ f # post" "IsMock Lower (snd f)" "\<forall>p\<in>set post. \<not> IsMock Lower (snd p)"
    for pre f post
    using that st walked(2) walk_frames_Mocked_last[of Lower ?s0 pre f post s]
    by (simp add: new_FuncInfoStack_def)
  show ?thesis using caller test mock by blast
qed

text \<open>
  Claim C2 says that a field, once set, is never overwritten by a later frame of the
  walk. In the walk of \<open>stack_two_mocks\<close> the first frame sets \<open>Mocked\<close> and \<open>Mocker\<close> to the
  frame of \<open>Get\<close>; at the end they are the frames of \<open>Lookup\<close> and \<open>Find\<close>. After four frames
  \<open>Test\<close> and \<open>Tested\<close> are the frames of \<open>TestFind\<close> and \<open>Find\<close>; at the end they are the
  frames of \<open>TestSuite\<close> and \<open>TestFind\<close>.
\<close>

lemma two_mocks_resolved:
  "resolved (stack_two_mocks ''Capture'') 3 =
     [(3, NewFuncInfo ''example.com/app.(*MockStore).Get'' ''app/mock_store.go'' 40),
      (4, NewFuncInfo ''example.com/app.(*MockCache).Lookup'' ''app/mock_cache.go'' 33),
      (5, NewFuncInfo ''example.com/app.(*Service).Find'' ''app/service.go'' 17),
      (6, NewFuncInfo ''example.com/app.TestFind'' ''app/find_test.go'' 21),
      (7, NewFuncInfo ''example.com/app.TestSuite'' ''app/find_test.go'' 9),
      (8, NewFuncInfo ''testing.tRunner'' ''testing/testing.go'' 1595),
      (9, NewFuncInfo ''runtime.goexit'' ''runtime/asm_amd64.s'' 1650)]"
  by (simp add: resolved.simps CallerFuncInfo_def frame_def core_frames_def stack_two_mocks_def)

lemma two_mocks_this:
  "CallerFuncInfo (stack_two_mocks ''Capture'') (Suc 0) =
     Some (1, NewFuncInfo ''github.com/sbernheim/goonit/core.(*BaseTest).BuildCallerStack''
                ''core/type.go'' 472)"
  by (simp add: CallerFuncInfo_def frame_def core_frames_def stack_two_mocks_def)

theorem first_match_counterexample:
  "BuildCallerStack noLower (stack_two_mocks ''Capture'') =
     walk_frames noLower
       (new_FuncInfoStack\<lparr>this_f := CallerFuncInfo (stack_two_mocks ''Capture'') 1\<rparr>)
       (resolved (stack_two_mocks ''Capture'') 3) \<and>
   map_sum id (\<lambda>s. (Mocked s, Mocker s))
     (walk_frames noLower
        (new_FuncInfoStack\<lparr>this_f := CallerFuncInfo (stack_two_mocks ''Capture'') 1\<rparr>)
        (take 1 (resolved (stack_two_mocks ''Capture'') 3))) =
     Inr (Some (3, NewFuncInfo ''example.com/app.(*MockStore).Get'' ''app/mock_store.go'' 40),
          Some (3, NewFuncInfo ''example.com/app.(*MockStore).Get'' ''app/mock_store.go'' 40)) \<and>
   map_sum id (\<lambda>s. (Mocked s, Mocker s))
     (BuildCallerStack noLower (stack_two_mocks ''Capture'')) =
     Inr (Some (4, NewFuncInfo ''example.com/app.(*MockCache).Lookup'' ''app/mock_cache.go'' 33),
          Some (5, NewFuncInfo ''example.com/app.(*Service).Find'' ''app/service.go'' 17)) \<and>
   map_sum id (\<lambda>s. (Test s, Tested s))
     (walk_frames noLower
        (new_FuncInfoStack\<lparr>this_f := CallerFuncInfo (stack_two_mocks ''Capture'') 1\<rparr>)
        (take 4 (resolved (stack_two_mocks ''Capture'') 3))) =
     Inr (Some (6, NewFuncInfo ''example.com/app.TestFind'' ''app/find_test.go'' 21),
          Some (5, NewFuncInfo ''example.com/app.(*Service).Find'' ''app/service.go'' 17)) \<and>
   map_sum id (\<lambda>s. (Test s, Tested s))
     (BuildCallerStack noLower (stack_two_mocks ''Capture'')) =
     Inr (Some (7, NewFuncInfo ''example.com/app.TestSuite'' ''app/find_test.go'' 9),
          Some (6, NewFuncInfo ''example.com/app.TestFind'' ''app/find_test.go'' 21))"
  unfolding two_mocks_resolved
  by (simp add: BuildCallerStack_def walk_resolved two_mocks_resolved two_mocks_this
      new_FuncInfoStack_def walk_frame_def frame_eval rune_eval)

theorem BuildCallerStack_matches_witness:
  "map_sum id (\<lambda>s. (Caller s, Test s, Tested s, Mocked s, Mocker s))
     (BuildCallerStack noLower (stack_two_mocks ''Capture'')) =
   Inr (Some (3, NewFuncInfo ''example.com/app.(*MockStore).Get'' ''app/mock_store.go'' 40),
        Some (7, NewFuncInfo ''example.com/app.TestSuite'' ''app/find_test.go'' 9),
        Some (6, NewFuncInfo ''example.com/app.TestFind'' ''app/find_test.go'' 21),
        Some (4, NewFuncInfo ''example.com/app.(*MockCache).Lookup'' ''app/mock_cache.go'' 33),
        Some (5, NewFuncInfo ''example.com/app.(*Service).Find'' ''app/service.go'' 17))"
proof -
  let ?rt = "stack_two_mocks ''Capture''"
  let ?f3 = "(3::nat, NewFuncInfo ''example.com/app.(*MockStore).Get'' ''app/mock_store.go'' 40)"
  let ?f4 = "(4::nat, NewFuncInfo ''example.com/app.(*MockCache).Lookup'' ''app/mock_cache.go'' 33)"
  let ?f5 = "(5::nat, NewFuncInfo ''example.com/app.(*Service).Find'' ''app/service.go'' 17)"
  let ?f6 = "(6::nat, NewFuncInfo ''example.com/app.TestFind'' ''app/find_test.go'' 21)"
  let ?f7 = "(7::nat, NewFuncInfo ''example.com/app.TestSuite'' ''app/find_test.go'' 9)"
  let ?f8 = "(8::nat, NewFuncInfo ''testing.tRunner'' ''testing/testing.go'' 1595)"
  let ?f9 = "(9::nat, NewFuncInfo ''runtime.goexit'' ''runtime/asm_amd64.s'' 1650)"
  obtain s where s: "BuildCallerStack noLower ?rt = Inr s"
    using BuildCallerStack_total by blast
  have st: "Stack s = [?f3, ?f4, ?f5, ?f6, ?f7, ?f8, ?f9]"
    using BuildCallerStack_Stack[OF s] by (simp add: two_mocks_this two_mocks_resolved)
  have th: "this_f s = CallerFuncInfo ?rt 1"
    using s two_mocks_this walk_frames_basic[of noLower _ "resolved ?rt 3" s]
    by (simp add: BuildCallerStack_def walk_resolved new_FuncInfoStack_def)
  note m = BuildCallerStack_matches[OF s]
  have c: "Caller s = Some ?f3"
    using m[THEN conjunct1, THEN spec, THEN spec, THEN spec, THEN spec,
        of "[]" ?f3 "[?f4, ?f5, ?f6, ?f7, ?f8, ?f9]"
           "(1, NewFuncInfo ''github.com/sbernheim/goonit/core.(*BaseTest).BuildCallerStack''
                ''core/type.go'' 472)"] st th
    by (simp add: two_mocks_this frame_eval)
  have t: "Test s = Some ?f7 \<and> Tested s = Some ?f6"
    using m[THEN conjunct2, THEN conjunct1, THEN spec, THEN spec, THEN spec,
        of "[?f3, ?f4, ?f5, ?f6]" ?f7 "[?f8, ?f9]"] st
    by (simp add: frame_eval rune_eval)
  have k: "Mocked s = Some ?f4 \<and> Mocker s = Some ?f5"
    using m[THEN conjunct2, THEN conjunct2, THEN spec, THEN spec, THEN spec,
        of "[?f3]" ?f4 "[?f5, ?f6, ?f7, ?f8, ?f9]"] st
    by (simp add: frame_eval rune_eval)
  from s c t k show ?thesis by simp
qed

section \<open>The capture store\<close>

lemma capturedOfType_loop_filter:
  "capturedOfType_loop A e results caps =
     results @ filter (\<lambda>c. AssignableToTypeOfMatch A e c = Some True) caps"
  by (induction caps arbitrary: results) auto

lemma capturedOfType_filter:
  "capturedOfType A e caps = filter (\<lambda>c. AssignableToTypeOfMatch A e c = Some True) caps"
  by (simp add: capturedOfType_def capturedOfType_loop_filter)

lemma CapturedOfType_loop_concat:
  "CapturedOfType_loop A e m caps keys =
     caps @ concat (map (\<lambda>k. case m k of None \<Rightarrow> [] | Some cs \<Rightarrow> capturedOfType A e cs) keys)"
  by (induction keys arbitrary: caps) (auto split: option.splits)

lemma capTypes_loop_append: "capTypes_loop capTypes caps = capTypes @ caps"
  by (induction caps arbitrary: capTypes) auto

lemma capturedKeys_loop_filter:
  "capturedKeys_loop m keys order = keys @ filter (\<lambda>k. m k \<noteq> None) order"
  by (induction order arbitrary: keys) auto

lemma capturedKeys_range_order:
  "range_order (capsFrom x) order \<Longrightarrow> capturedKeys order x = order"
proof -
  assume "range_order (capsFrom x) order"
  then have "\<forall>k\<in>set order. capsFrom x k \<noteq> None" by (auto simp add: range_order_def)
  then have "filter (\<lambda>k. capsFrom x k \<noteq> None) order = order" by (simp add: filter_id_conv)
  then show ?thesis by (simp add: capturedKeys_def capturedKeys_loop_filter)
qed

lemma BuildCallerStack_Mocked_Mocker:
  assumes "BuildCallerStack Lower rt = Inr s" and "Mocked s \<noteq> None"
  shows "Mocker s \<noteq> None"
proof -
  have "Stack s \<noteq> []"
  proof
    assume "Stack s = []"
    then have "\<forall>f\<in>set (Stack s). \<not> IsMock Lower (snd f)" by simp
    from BuildCallerStack_Mocked_none[OF assms(1) this] assms(2) show False by simp
  qed
  from BuildCallerStack_Mocker_not_nil[OF assms(1) this] show ?thesis .
qed

lemma Capture_keyed:
  assumes "BuildCallerStack Lower rt = Inr s" and "Mocked s = Some mocked"
  shows "\<exists>mocker key. Mocker s = Some mocker \<and>
           key = Join [Object (snd mocker), Function (snd mocker),
                       Object (snd mocked), Function (snd mocked)] ''.'' \<and>
           Capture Lower rt x vals =
             Inr (x\<lparr>capsFrom := (capsFrom x)(key \<mapsto>
                        (case capsFrom x key of None \<Rightarrow> [] | Some found \<Rightarrow> found) @ vals),
                    captured := captured x @ vals\<rparr>)"
proof -
  from BuildCallerStack_Mocked_Mocker[OF assms(1)] assms(2)
  obtain mocker where "Mocker s = Some mocker" by auto
  with assms show ?thesis by (simp add: Capture_def MockedCall_def Let_def)
qed

lemma Capture_unkeyed:
  assumes "BuildCallerStack Lower rt = Inr s" and "Mocked s = None"
  shows "Capture Lower rt x vals =
           (case LogString (Caller s) of
              Inl e \<Rightarrow> Inl (Panic e)
            | Inr site \<Rightarrow> Inr (x\<lparr>tlog := tlog x @ [NoMockFoundForCapture site],
                                captured := captured x @ vals\<rparr>))"
  using assms by (simp add: Capture_def split: sum.splits)

lemma Capture_unkeyed_caller:
  assumes "BuildCallerStack Lower rt = Inr s" and "Mocked s = None" and "Caller s = Some c"
  shows "\<exists>site. Capture Lower rt x vals =
           Inr (x\<lparr>tlog := tlog x @ [NoMockFoundForCapture site], captured := captured x @ vals\<rparr>)"
  using assms by (auto simp add: Capture_def LogString_def split: sum.splits)

lemmas store_eval = Capture_def MockedCall_def LogString_def New_def goInt_def goString_def
  identical_def AssignableToTypeOfMatch_def Captured_def CapturedFrom_def callerLogString_def
  GetCallerInfo_def CapturedOfType_def CapturedOfTypeFromCall_def capturedOfType_def
  capturedKeys_def

lemmas stacks_def = stack_no_mock_def stack_one_mock_def stack_two_mocks_def
  method_frame_def stack_lookup_def


lemma sint_plus_1_le: "sint (index + 1 :: 64 word) \<le> sint index + 1"
proof -
  have "sint (index + 1) = signed_take_bit (LENGTH(64) - 1) (sint index + sint (1::64 word))"
    by (rule sint_word_ariths)
  also have "\<dots> = signed_take_bit 63 (sint index + 1)" by simp
  also have "\<dots> \<le> sint index + 1"
    using sint_ge[of index] by (simp add: signed_take_bit_int_less_eq_self_iff)
  finally show ?thesis .
qed

lemma Captured_returns:
  assumes "0 \<le> sint index" and "sint index < int (length (captured x))"
    and "AssignableToTypeOfMatch A e (captured x ! nat (sint index)) = Some True"
  shows "Captured A x index e = Inr (captured x ! nat (sint index))"
proof -
  from assms(1,2) have ne: "captured x \<noteq> []" by auto
  from sint_plus_1_le[of index] assms(2) have "sint (index + 1) \<le> int (length (captured x))"
    by linarith
  with ne assms show ?thesis by (simp add: Captured_def Let_def)
qed

lemma Captured_negative:
  assumes "captured x \<noteq> []" and "sint index < 0"
  shows "Captured A x index e = Inl (Panic IndexOutOfRange)"
proof -
  from sint_plus_1_le[of index] assms(2) have "sint (index + 1) \<le> int (length (captured x))"
    by linarith
  with assms show ?thesis by (simp add: Captured_def)
qed

lemma Captured_fails:
  assumes "captured x = [] \<or> sint index < 0 \<or> int (length (captured x)) \<le> sint index \<or>
           AssignableToTypeOfMatch A e (captured x ! nat (sint index)) \<noteq> Some True"
  shows "\<exists>failure. Captured A x index e = Inl failure"
  using assms by (auto simp add: Captured_def Let_def)

lemma CapturedOfType_result:
  "CapturedOfType A Lower rt order x e =
     (let caps = concat (map (\<lambda>k. case capsFrom x k of None \<Rightarrow> []
                 | Some cs \<Rightarrow> filter (\<lambda>c. AssignableToTypeOfMatch A e c = Some True) cs) order)
      in if caps = []
         then (case callerLogString Lower rt of
                 Inl p \<Rightarrow> Inl (Panic p)
               | Inr caller \<Rightarrow> Inl (Fatal (NoCapturedOfType e caller)))
         else Inr caps)"
  by (simp add: CapturedOfType_def CapturedOfType_loop_concat capturedOfType_filter Let_def
      cong: option.case_cong)

lemma CapturedOfType_values:
  assumes "range_order (capsFrom x) order" and "CapturedOfType A Lower rt order x e = Inr caps"
  shows "caps \<noteq> [] \<and>
         set caps = {c. \<exists>k cs. capsFrom x k = Some cs \<and> c \<in> set cs \<and>
                        AssignableToTypeOfMatch A e c = Some True}"
proof -
  let ?P = "\<lambda>c. AssignableToTypeOfMatch A e c = Some True"
  let ?all = "concat (map (\<lambda>k. case capsFrom x k of None \<Rightarrow> [] | Some cs \<Rightarrow> filter ?P cs) order)"
  from assms(2) have caps: "caps = ?all" and ne: "caps \<noteq> []"
    by (auto simp add: CapturedOfType_result Let_def split: if_splits sum.splits)
  have "set ?all = {c. \<exists>k cs. capsFrom x k = Some cs \<and> c \<in> set cs \<and> ?P c}"
  proof (intro set_eqI iffI)
    fix c assume "c \<in> set ?all"
    then obtain k where "k \<in> set order"
      and "c \<in> set (case capsFrom x k of None \<Rightarrow> [] | Some cs \<Rightarrow> filter ?P cs)" by auto
    then show "c \<in> {c. \<exists>k cs. capsFrom x k = Some cs \<and> c \<in> set cs \<and> ?P c}"
      by (cases "capsFrom x k") auto
  next
    fix c assume "c \<in> {c. \<exists>k cs. capsFrom x k = Some cs \<and> c \<in> set cs \<and> ?P c}"
    then obtain k cs where k: "capsFrom x k = Some cs" "c \<in> set cs" "?P c" by blast
    with assms(1) have "k \<in> set order" by (auto simp add: range_order_def)
    with k show "c \<in> set ?all" by force
  qed
  with caps ne show ?thesis by simp
qed

lemma CapturedOfTypeFromCall_lists_nothing:
  assumes "CapturedOfTypeFromCall A Lower rt' rt order x e mockCall =
             Inl (Fatal (NoCapturesOfTypeFrom caller e' call keys capTypes))"
  shows "capTypes = []"
  using assms
  by (auto simp add: CapturedOfTypeFromCall_def CapturedFrom_def capTypes_loop_append Let_def
      split: sum.splits if_splits option.splits)






text \<open>
  Two captures from the same mock call, \<open>"a"\<close> then \<open>"b"\<close>: the key is built from the
  frames of \<open>Find\<close> and \<open>Get\<close>, and \<open>CapturedFrom\<close> returns both values in the order of
  insertion.
\<close>

lemma one_mock_key:
  "map_sum id MockedCall (BuildCallerStack noLower (stack_one_mock ''Capture'')) =
     Inr (Inr ''Service.Find.MockStore.Get'')"
  by (simp add: stack_eval stacks_def frame_eval rune_eval MockedCall_def)

lemma capture_a_b:
  "Capture noLower (stack_one_mock ''Capture'') New [goString ''a''] =
     Inr \<lparr>captured = [goString ''a''],
          capsFrom = [''Service.Find.MockStore.Get'' \<mapsto> [goString ''a'']], tlog = []\<rparr> \<and>
   Capture noLower (stack_one_mock ''Capture'')
     \<lparr>captured = [goString ''a''],
      capsFrom = [''Service.Find.MockStore.Get'' \<mapsto> [goString ''a'']], tlog = []\<rparr>
     [goString ''b''] =
     Inr \<lparr>captured = [goString ''a'', goString ''b''],
          capsFrom = [''Service.Find.MockStore.Get'' \<mapsto> [goString ''a'', goString ''b'']],
          tlog = []\<rparr> \<and>
   CapturedFrom noLower (stack_lookup [''CapturedFrom'']) [''Service.Find.MockStore.Get'']
     \<lparr>captured = [goString ''a'', goString ''b''],
      capsFrom = [''Service.Find.MockStore.Get'' \<mapsto> [goString ''a'', goString ''b'']],
      tlog = []\<rparr> ''Service.Find.MockStore.Get'' = Inr [goString ''a'', goString ''b'']"
  by (simp add: stack_eval stacks_def frame_eval rune_eval store_eval)

lemma AssignableToTypeOfMatch_assignable_to:
  "AssignableToTypeOfMatch A e c = Some True \<longleftrightarrow> assignable_to A e c"
  by (cases e; cases c) (auto simp add: AssignableToTypeOfMatch_def assignable_to_def)

lemma callerLogString_reported:
  assumes "reported_stack rt"
  shows "\<exists>caller. callerLogString Lower rt = Inr caller"
proof -
  obtain s where s: "BuildCallerStack Lower rt = Inr s" using BuildCallerStack_total by blast
  from reported_stack_Caller[OF assms s] obtain c where "Caller s = Some c" by auto
  with s show ?thesis
    by (cases "Object (snd c) = []") (simp_all add: callerLogString_def GetCallerInfo_def LogString_def)
qed

lemma reported_examples:
  "reported_stack (stack_no_mock m)" "reported_stack (stack_one_mock m)"
  "reported_stack (stack_two_mocks m)" "reported_stack (stack_lookup [m])"
  "reported_stack (stack_lookup [m, m'])"
  by (simp_all add: reported_stack_def stacks_def core_frames_def test_frames_def frame_def
      CallerFuncInfo_def frame_eval)

text \<open>
  Claim C6. On every stack the runtime reports: when the walk finds no mock frame,
  \<open>Capture\<close> appends the values to the global sequence only and logs its diagnostic
  without failing; when the walk finds a mock frame, \<open>Mocker\<close> is not nil, the key is the
  receiver type and the function name of \<open>Mocker\<close> and of \<open>Mocked\<close> joined with dots, and
  the values are appended at the end of the bucket of that key and to the global
  sequence; and two captures under one key on a fresh store make \<open>CapturedFrom\<close> return
  the values of the first followed by those of the second.
\<close>

theorem Capture_spec:
  fixes x :: "('t, 'd) BaseTest"
  assumes "reported_stack rt" and "BuildCallerStack Lower rt = Inr s"
  shows "(Mocked s = None \<longrightarrow>
            (\<exists>site. LogString (Caller s) = Inr site \<and>
               Capture Lower rt x vals =
                 Inr (x\<lparr>tlog := tlog x @ [NoMockFoundForCapture site],
                        captured := captured x @ vals\<rparr>))) \<and>
         (\<forall>mocked. Mocked s = Some mocked \<longrightarrow>
            (\<exists>mocker key. Mocker s = Some mocker \<and>
               key = Object (snd mocker) @ ''.'' @ Function (snd mocker) @ ''.'' @
                     Object (snd mocked) @ ''.'' @ Function (snd mocked) \<and>
               Capture Lower rt x vals =
                 Inr (x\<lparr>capsFrom := (capsFrom x)(key \<mapsto>
                            (case capsFrom x key of None \<Rightarrow> [] | Some bucket \<Rightarrow> bucket) @ vals),
                        captured := captured x @ vals\<rparr>))) \<and>
         (\<forall>rt2 s2 key a b rt3 order.
            reported_stack rt2 \<and> BuildCallerStack Lower rt2 = Inr s2 \<and>
            MockedCall s = Inr key \<and> MockedCall s2 = Inr key \<longrightarrow>
            (\<exists>x1 x2. Capture Lower rt (New :: ('t, 'd) BaseTest) a = Inr x1 \<and>
               Capture Lower rt2 x1 b = Inr x2 \<and>
               CapturedFrom Lower rt3 order x2 key = Inr (a @ b)))"
proof -
  have unkeyed: "\<exists>site. LogString (Caller s) = Inr site \<and>
      Capture Lower rt x vals =
        Inr (x\<lparr>tlog := tlog x @ [NoMockFoundForCapture site], captured := captured x @ vals\<rparr>)"
    if "Mocked s = None"
  proof -
    from reported_stack_Caller[OF assms] obtain c where c: "Caller s = Some c" by auto
    then obtain site where site: "LogString (Caller s) = Inr site"
      by (cases "Object (snd c) = []") (simp_all add: LogString_def)
    with Capture_unkeyed[OF assms(2) that, of x vals] show ?thesis by simp
  qed
  have keyed: "\<exists>mocker key. Mocker s = Some mocker \<and>
      key = Object (snd mocker) @ ''.'' @ Function (snd mocker) @ ''.'' @
            Object (snd mocked) @ ''.'' @ Function (snd mocked) \<and>
      Capture Lower rt x vals =
        Inr (x\<lparr>capsFrom := (capsFrom x)(key \<mapsto>
                   (case capsFrom x key of None \<Rightarrow> [] | Some bucket \<Rightarrow> bucket) @ vals),
               captured := captured x @ vals\<rparr>)"
    if "Mocked s = Some mocked" for mocked
    using Capture_keyed[OF assms(2) that, of x vals] by auto
  have twice: "\<exists>x1 x2. Capture Lower rt (New :: ('t, 'd) BaseTest) a = Inr x1 \<and>
      Capture Lower rt2 x1 b = Inr x2 \<and>
      CapturedFrom Lower rt3 order x2 key = Inr (a @ b)"
    if "BuildCallerStack Lower rt2 = Inr s2" "MockedCall s = Inr key" "MockedCall s2 = Inr key"
    for rt2 s2 key and a b :: "('t, 'd) iface list" and rt3 order
  proof -
    from that(2) obtain m1 where m1: "Mocked s = Some m1"
      by (auto simp add: MockedCall_def split: option.splits)
    from that(3) obtain m2 where m2: "Mocked s2 = Some m2"
      by (auto simp add: MockedCall_def split: option.splits)
    have c1: "Capture Lower rt (New :: ('t, 'd) BaseTest) a =
        Inr (New\<lparr>capsFrom := (capsFrom New)(key \<mapsto> a), captured := a\<rparr>)"
      using assms(2) that(2) m1 by (simp add: Capture_def New_def)
    have c2: "Capture Lower rt2 (New\<lparr>capsFrom := (capsFrom New)(key \<mapsto> a), captured := a\<rparr>) b =
        Inr (New\<lparr>capsFrom := (capsFrom New)(key \<mapsto> a @ b), captured := a @ b\<rparr>)"
      using that(1,3) m2 by (simp add: Capture_def New_def)
    have c3: "CapturedFrom Lower rt3 order
        (New\<lparr>capsFrom := (capsFrom New)(key \<mapsto> a @ b), captured := a @ b\<rparr>) key = Inr (a @ b)"
      by (simp add: CapturedFrom_def New_def)
    from c1 c2 c3 show ?thesis by blast
  qed
  show ?thesis using unkeyed keyed twice by blast
qed

theorem Capture_spec_witness:
  "reported_stack (stack_no_mock ''Capture'') \<and> reported_stack (stack_one_mock ''Capture'') \<and>
   Capture noLower (stack_no_mock ''Capture'') New [goString ''a''] =
     Inr \<lparr>captured = [goString ''a''], capsFrom = Map.empty,
          tlog = [NoMockFoundForCapture
                    (''example.com/app'', ''TestFind'', ''app/find_test.go'', 21)]\<rparr> \<and>
   Capture noLower (stack_one_mock ''Capture'') New [goString ''a''] =
     Inr \<lparr>captured = [goString ''a''],
          capsFrom = [''Service.Find.MockStore.Get'' \<mapsto> [goString ''a'']], tlog = []\<rparr> \<and>
   (\<exists>x1 x2. Capture noLower (stack_one_mock ''Capture'') New [goString ''a''] = Inr x1 \<and>
      Capture noLower (stack_one_mock ''Capture'') x1 [goString ''b''] = Inr x2 \<and>
      CapturedFrom noLower (stack_lookup [''CapturedFrom'']) [''Service.Find.MockStore.Get'']
        x2 ''Service.Find.MockStore.Get'' = Inr [goString ''a'', goString ''b''])"
proof -
  let ?rt0 = "stack_no_mock ''Capture''" and ?rt1 = "stack_one_mock ''Capture''"
  let ?x0 = "New :: (gotype, godata) BaseTest"
  have r0: "reported_stack ?rt0" and r1: "reported_stack ?rt1" by (rule reported_examples)+
  obtain s0 where s0: "BuildCallerStack noLower ?rt0 = Inr s0" using BuildCallerStack_total by blast
  obtain s1 where s1: "BuildCallerStack noLower ?rt1 = Inr s1" using BuildCallerStack_total by blast
  have "map_sum id (\<lambda>s. (Mocked s, LogString (Caller s))) (BuildCallerStack noLower ?rt0) =
      Inr (None, Inr (''example.com/app'', ''TestFind'', ''app/find_test.go'', 21))"
    by (simp add: stack_eval stacks_def frame_eval rune_eval LogString_def)
  with s0 have m0: "Mocked s0 = None"
    and l0: "LogString (Caller s0) = Inr (''example.com/app'', ''TestFind'', ''app/find_test.go'', 21)"
    by simp_all
  have "map_sum id (\<lambda>s. (Mocked s, Mocker s, MockedCall s)) (BuildCallerStack noLower ?rt1) =
      Inr (Some (3, NewFuncInfo ''example.com/app.(*MockStore).Get'' ''app/mock_store.go'' 40),
           Some (4, NewFuncInfo ''example.com/app.(*Service).Find'' ''app/service.go'' 17),
           Inr ''Service.Find.MockStore.Get'')"
    by (simp add: stack_eval stacks_def frame_eval rune_eval MockedCall_def)
  with s1 have m1: "Mocked s1 = Some (3, NewFuncInfo ''example.com/app.(*MockStore).Get'' ''app/mock_store.go'' 40)"
    and k1: "Mocker s1 = Some (4, NewFuncInfo ''example.com/app.(*Service).Find'' ''app/service.go'' 17)"
    and c1: "MockedCall s1 = Inr ''Service.Find.MockStore.Get''"
    by simp_all
  have unkeyed: "Capture noLower ?rt0 ?x0 [goString ''a''] =
     Inr \<lparr>captured = [goString ''a''], capsFrom = Map.empty,
          tlog = [NoMockFoundForCapture
                    (''example.com/app'', ''TestFind'', ''app/find_test.go'', 21)]\<rparr>"
    using Capture_spec[OF r0 s0, of ?x0 "[goString ''a'']", THEN conjunct1] m0 l0
    by (auto simp add: New_def)
  have keyed: "Capture noLower ?rt1 ?x0 [goString ''a''] =
     Inr \<lparr>captured = [goString ''a''],
          capsFrom = [''Service.Find.MockStore.Get'' \<mapsto> [goString ''a'']], tlog = []\<rparr>"
    using Capture_spec[OF r1 s1, of ?x0 "[goString ''a'']", THEN conjunct2, THEN conjunct1,
        THEN spec, THEN mp, OF m1] k1
    by (auto simp add: New_def frame_eval)
  have twice: "\<exists>x1 x2. Capture noLower ?rt1 ?x0 [goString ''a''] = Inr x1 \<and>
      Capture noLower ?rt1 x1 [goString ''b''] = Inr x2 \<and>
      CapturedFrom noLower (stack_lookup [''CapturedFrom'']) [''Service.Find.MockStore.Get'']
        x2 ''Service.Find.MockStore.Get'' = Inr [goString ''a'', goString ''b'']"
    using Capture_spec[OF r1 s1, of ?x0 "[]", THEN conjunct2, THEN conjunct2,
        THEN spec, THEN spec, THEN spec, THEN spec, THEN spec, THEN spec, THEN spec,
        of ?rt1 s1 "''Service.Find.MockStore.Get''" "[goString ''a'']" "[goString ''b'']"
           "stack_lookup [''CapturedFrom'']" "[''Service.Find.MockStore.Get'']"]
      r1 s1 c1
    by simp
  from r0 r1 unkeyed keyed twice show ?thesis by blast
qed

text \<open>
  Claim C7. On every stack the runtime reports, and whatever the order in which the
  buckets are visited: what \<open>CapturedOfType\<close> returns is never empty and holds exactly
  the values of all buckets whose runtime type is assignable to the expected type; it
  returns whenever there is such a value; and when there is none, as on the empty
  store, it fails the test with its diagnostic.
\<close>

theorem CapturedOfType_spec:
  assumes "reported_stack rt" and "range_order (capsFrom x) order"
  shows "(\<forall>caps. CapturedOfType A Lower rt order x e = Inr caps \<longrightarrow>
            caps \<noteq> [] \<and>
            caps = concat (map (\<lambda>k. case capsFrom x k of None \<Rightarrow> []
                                    | Some cs \<Rightarrow> filter (assignable_to A e) cs) order) \<and>
            set caps = {c. \<exists>k cs. capsFrom x k = Some cs \<and> c \<in> set cs \<and> assignable_to A e c}) \<and>
         ((\<exists>k cs c. capsFrom x k = Some cs \<and> c \<in> set cs \<and> assignable_to A e c) \<longrightarrow>
            (\<exists>caps. CapturedOfType A Lower rt order x e = Inr caps)) \<and>
         ((\<forall>k cs c. capsFrom x k = Some cs \<and> c \<in> set cs \<longrightarrow> \<not> assignable_to A e c) \<longrightarrow>
            (\<exists>caller. CapturedOfType A Lower rt order x e =
                        Inl (Fatal (NoCapturedOfType e caller)))) \<and>
         (capsFrom x = Map.empty \<longrightarrow>
            (\<exists>caller. CapturedOfType A Lower rt order x e =
                        Inl (Fatal (NoCapturedOfType e caller))))"
proof -
  let ?P = "assignable_to A e"
  let ?all = "concat (map (\<lambda>k. case capsFrom x k of None \<Rightarrow> [] | Some cs \<Rightarrow> filter ?P cs) order)"
  let ?M = "{c. \<exists>k cs. capsFrom x k = Some cs \<and> c \<in> set cs \<and> ?P c}"
  from callerLogString_reported[OF assms(1)] obtain caller
    where caller: "callerLogString Lower rt = Inr caller" by blast
  have P: "(\<lambda>c. AssignableToTypeOfMatch A e c = Some True) = ?P"
    by (simp add: AssignableToTypeOfMatch_assignable_to)
  note unfolded_result = CapturedOfType_result[of A Lower rt order x e, unfolded P]
  have result_nil: "CapturedOfType A Lower rt order x e = Inl (Fatal (NoCapturedOfType e caller))"
    if "?all = []"
    using unfolded_result that by (auto simp add: caller Let_def)
  have result_some: "CapturedOfType A Lower rt order x e = Inr ?all" if "?all \<noteq> []"
    using unfolded_result that by (auto simp add: Let_def)
  have setall: "set ?all = ?M"
  proof (intro set_eqI iffI)
    fix c assume "c \<in> set ?all"
    then obtain k where "k \<in> set order"
      and "c \<in> set (case capsFrom x k of None \<Rightarrow> [] | Some cs \<Rightarrow> filter ?P cs)" by auto
    then show "c \<in> ?M" by (cases "capsFrom x k") auto
  next
    fix c assume "c \<in> ?M"
    then obtain k cs where k: "capsFrom x k = Some cs" "c \<in> set cs" "?P c" by blast
    with assms(2) have "k \<in> set order" by (auto simp add: range_order_def)
    with k show "c \<in> set ?all" by force
  qed
  have returned: "caps \<noteq> [] \<and> caps = ?all \<and> set caps = ?M"
    if "CapturedOfType A Lower rt order x e = Inr caps" for caps
  proof -
    have ne: "?all \<noteq> []"
    proof
      assume "?all = []"
      from result_nil[OF this] that show False by simp
    qed
    from result_some[OF ne] that have eq: "caps = ?all" by simp
    show ?thesis unfolding eq using ne setall by blast
  qed
  have some: "\<exists>caps. CapturedOfType A Lower rt order x e = Inr caps"
    if "\<exists>k cs c. capsFrom x k = Some cs \<and> c \<in> set cs \<and> ?P c"
  proof -
    from that have M: "?M \<noteq> {}" by blast
    have "set ?all \<noteq> {}" by (subst setall) (rule M)
    then have "?all \<noteq> []" by (metis empty_set)
    from result_some[OF this] show ?thesis by blast
  qed
  have none: "\<exists>caller. CapturedOfType A Lower rt order x e = Inl (Fatal (NoCapturedOfType e caller))"
    if "\<forall>k cs c. capsFrom x k = Some cs \<and> c \<in> set cs \<longrightarrow> \<not> ?P c"
  proof -
    from that have M: "?M = {}" by blast
    have "set ?all = {}" by (subst setall) (rule M)
    then have "?all = []" by (simp only: set_empty)
    from result_nil[OF this] show ?thesis by blast
  qed
  have empty: "\<exists>caller. CapturedOfType A Lower rt order x e = Inl (Fatal (NoCapturedOfType e caller))"
    if "capsFrom x = Map.empty"
    using none that by simp
  show ?thesis using returned some none empty by blast
qed

theorem CapturedOfType_spec_witness:
  "reported_stack (stack_lookup [''CapturedOfType'']) \<and>
   range_order (capsFrom (New :: (gotype, godata) BaseTest)) [] \<and>
   CapturedOfType identical noLower (stack_lookup [''CapturedOfType'']) [] New (goInt 0) =
     Inl (Fatal (NoCapturedOfType (goInt 0)
            (''example.com/app'', ''TestFind'', ''app/find_test.go'', 21))) \<and>
   range_order [''Service.Find.MockStore.Get'' \<mapsto> [goString ''a'', goInt 42]]
     [''Service.Find.MockStore.Get''] \<and>
   CapturedOfType identical noLower (stack_lookup [''CapturedOfType''])
     [''Service.Find.MockStore.Get'']
     \<lparr>captured = [goString ''a'', goInt 42],
      capsFrom = [''Service.Find.MockStore.Get'' \<mapsto> [goString ''a'', goInt 42]], tlog = []\<rparr>
     (goInt 0) = Inr [goInt 42]"
proof -
  let ?rt = "stack_lookup [''CapturedOfType'']"
  let ?x0 = "New :: (gotype, godata) BaseTest"
  let ?x1 = "\<lparr>captured = [goString ''a'', goInt 42],
      capsFrom = [''Service.Find.MockStore.Get'' \<mapsto> [goString ''a'', goInt 42]], tlog = []\<rparr>"
  have r: "reported_stack ?rt" by (rule reported_examples)
  have o0: "range_order (capsFrom ?x0) []" by (simp add: range_order_def New_def)
  have o1: "range_order (capsFrom ?x1) [''Service.Find.MockStore.Get'']"
    by (simp add: range_order_def)
  have caller: "callerLogString noLower ?rt =
      Inr (''example.com/app'', ''TestFind'', ''app/find_test.go'', 21)"
    by (simp add: callerLogString_def GetCallerInfo_def LogString_def stack_eval stacks_def
        frame_eval rune_eval)
  from CapturedOfType_spec[OF r o0, of identical noLower "goInt 0", THEN conjunct2, THEN conjunct2,
      THEN conjunct2]
  obtain c where "CapturedOfType identical noLower ?rt [] ?x0 (goInt 0) =
      Inl (Fatal (NoCapturedOfType (goInt 0) c))" by (auto simp add: New_def)
  moreover from this caller
  have "c = (''example.com/app'', ''TestFind'', ''app/find_test.go'', 21)"
    by (simp add: CapturedOfType_def New_def)
  ultimately have empty: "CapturedOfType identical noLower ?rt [] ?x0 (goInt 0) =
      Inl (Fatal (NoCapturedOfType (goInt 0)
            (''example.com/app'', ''TestFind'', ''app/find_test.go'', 21)))" by simp
  have "\<exists>k cs c. capsFrom ?x1 k = Some cs \<and> c \<in> set cs \<and> assignable_to identical (goInt 0) c"
    by (rule exI[of _ "''Service.Find.MockStore.Get''"], rule exI[of _ "[goString ''a'', goInt 42]"],
        rule exI[of _ "goInt 42"])
       (simp add: assignable_to_def goInt_def goString_def identical_def)
  with CapturedOfType_spec[OF r o1, of identical noLower "goInt 0", THEN conjunct2, THEN conjunct1]
  obtain caps where caps: "CapturedOfType identical noLower ?rt [''Service.Find.MockStore.Get'']
      ?x1 (goInt 0) = Inr caps" by blast
  from CapturedOfType_spec[OF r o1, of identical noLower "goInt 0", THEN conjunct1,
      THEN spec, THEN mp, OF caps]
  have "caps = [goInt 42]"
    by (simp add: assignable_to_def goInt_def goString_def identical_def)
  with caps have some: "CapturedOfType identical noLower ?rt [''Service.Find.MockStore.Get'']
      ?x1 (goInt 0) = Inr [goInt 42]" by simp
  from r o0 o1 empty some show ?thesis by simp
qed

text \<open>
  Claim C8 says that \<open>Captured\<close> returns the value at an index in range whose type is
  assignable, and in every other case fails the test with a diagnostic naming the
  violated condition. After \<open>Capture(42)\<close>, \<open>Captured(0, 0)\<close> returns 42 and
  \<open>Captured(0, "")\<close> fails the test with the type diagnostic, as the claim says. The two
  assertions on the index only bound it from above: at the index \<open>-1\<close> both pass and
  the expression \<open>x.captured[index]\<close> panics (\<open>Captured_negative\<close>).
\<close>

theorem Captured_negative_index_panics:
  "Capture noLower (stack_one_mock ''Capture'') New [goInt 42] =
     Inr \<lparr>captured = [goInt 42],
          capsFrom = [''Service.Find.MockStore.Get'' \<mapsto> [goInt 42]], tlog = []\<rparr> \<and>
   Captured identical
     \<lparr>captured = [goInt 42],
      capsFrom = [''Service.Find.MockStore.Get'' \<mapsto> [goInt 42]], tlog = []\<rparr>
     0 (goInt 0) = Inr (goInt 42) \<and>
   Captured identical
     \<lparr>captured = [goInt 42],
      capsFrom = [''Service.Find.MockStore.Get'' \<mapsto> [goInt 42]], tlog = []\<rparr>
     0 (goString []) = Inl (Fatal (NotAssignableAt (goInt 42) 0 (goString []))) \<and>
   Captured identical
     \<lparr>captured = [goInt 42],
      capsFrom = [''Service.Find.MockStore.Get'' \<mapsto> [goInt 42]], tlog = []\<rparr>
     (- 1) (goInt 0) = Inl (Panic IndexOutOfRange)"
  by (simp add: stack_eval stacks_def frame_eval rune_eval store_eval)


text \<open>
  Claim C9 says that, when no value of the bucket has the expected type, the diagnostic
  of \<open>CapturedOfTypeFromCall\<close> lists the runtime types of the candidate values of the
  bucket. The loop that builds the list ranges over \<open>caps\<close>, the matching values, which
  are none in that branch: the list is always empty
  (\<open>CapturedOfTypeFromCall_lists_nothing\<close>). Here the bucket holds the integer 42, a
  string is expected, and the diagnostic lists no candidate.
\<close>

theorem CapturedOfTypeFromCall_lists_no_candidate:
  "CapturedFrom noLower (stack_lookup [''CapturedFrom'', ''CapturedOfTypeFromCall''])
     [''Service.Find.MockStore.Get'']
     \<lparr>captured = [goInt 42],
      capsFrom = [''Service.Find.MockStore.Get'' \<mapsto> [goInt 42]], tlog = []\<rparr>
     ''Service.Find.MockStore.Get'' = Inr [goInt 42] \<and>
   CapturedOfTypeFromCall identical noLower
     (stack_lookup [''CapturedFrom'', ''CapturedOfTypeFromCall''])
     (stack_lookup [''CapturedOfTypeFromCall''])
     [''Service.Find.MockStore.Get'']
     \<lparr>captured = [goInt 42],
      capsFrom = [''Service.Find.MockStore.Get'' \<mapsto> [goInt 42]], tlog = []\<rparr>
     (goString []) ''Service.Find.MockStore.Get'' =
     Inl (Fatal (NoCapturesOfTypeFrom
            (''example.com/app'', ''TestFind'', ''app/find_test.go'', 21)
            (goString []) ''Service.Find.MockStore.Get'' [''Service.Find.MockStore.Get''] []))"
  by (simp add: stack_eval stacks_def frame_eval rune_eval store_eval)

end
